theory Spec2Isabelle
  imports Main
begin

section \<open>Memory, streams and outcomes\<close>

text \<open>
  The editor of \<^verbatim>\<open>blob.c\<close> keeps its text in two kinds of heap objects,
  \<^verbatim>\<open>struct character\<close> and \<^verbatim>\<open>struct line\<close>, both doubly linked. The model
  keeps the blocks of the heap by the struct type they are used at, indexed by
  addresses; a pointer is an \<open>addr option\<close> with \<open>None\<close> for \<^verbatim>\<open>NULL\<close>. The
  fields \<^verbatim>\<open>c\<close>, \<^verbatim>\<open>next\<close>, \<^verbatim>\<open>prev\<close> and \<^verbatim>\<open>data\<close> carry a prefix naming their
  struct.
\<close>

type_synonym addr = nat

record character =
  c_val :: char
  c_next :: "addr option"
  c_prev :: "addr option"

record line =
  l_data :: "addr option"
  l_next :: "addr option"
  l_prev :: "addr option"

text \<open>
  A call either returns a value, or ends the process through
  \<^verbatim>\<open>exit(EXIT_FAILURE)\<close>, or accesses memory through a pointer that is \<^verbatim>\<open>NULL\<close>,
  or not allocated, or at an offset outside the block it points to (\<open>Fault\<close>:
  the behaviour of the C program is undefined there).
  Loops that follow links of the heap need not terminate; they are partial
  functions into \<open>option\<close>, where \<open>None\<close> is a loop that runs forever.
\<close>

datatype 'a result = Return 'a | Exit_failure | Fault

definition rbind :: "'a result \<Rightarrow> ('a \<Rightarrow> 'b result) \<Rightarrow> 'b result" where
  "rbind m f = (case m of Return x \<Rightarrow> f x | Exit_failure \<Rightarrow> Exit_failure | Fault \<Rightarrow> Fault)"

definition obind :: "'a result option \<Rightarrow> ('a \<Rightarrow> 'b result option) \<Rightarrow> 'b result option" where
  "obind m f =
     (case m of None \<Rightarrow> None
      | Some r \<Rightarrow> (case r of Return x \<Rightarrow> f x
                   | Exit_failure \<Rightarrow> Some Exit_failure
                   | Fault \<Rightarrow> Some Fault))"

text \<open>
  A path of the file system: its bytes when it exists, and whether \<^verbatim>\<open>fopen\<close>
  succeeds on it for reading and for writing (or creating).
\<close>

record fnode =
  content :: "string option"
  may_read :: bool
  may_write :: bool

text \<open>
  The state of the process and of its environment.

  A block of the heap is as large as the \<^verbatim>\<open>malloc\<close> that made it has asked
  for. \<open>char_heap\<close> and \<open>line_heap\<close> hold the blocks that have room for a whole
  \<^verbatim>\<open>struct character\<close> and a whole \<^verbatim>\<open>struct line\<close>. \<open>char_block\<close> and
  \<open>line_block\<close> hold the blocks of \<^verbatim>\<open>sizeof(struct character *)\<close> and
  \<^verbatim>\<open>sizeof(struct line *)\<close> bytes: a pointer is smaller than either struct
  (one member and two pointers), so such a block has room for the first member
  only, \<^verbatim>\<open>c\<close> or \<^verbatim>\<open>data\<close>, and the members \<^verbatim>\<open>next\<close> and \<^verbatim>\<open>prev\<close> lie outside
  it.

  \<open>brk\<close> is the address the next \<^verbatim>\<open>malloc\<close> hands out, and \<open>malloc_null\<close> the
  schedule of its failures: the k-th entry tells whether the k-th call of
  \<^verbatim>\<open>malloc\<close> returns \<^verbatim>\<open>NULL\<close> (it does not once the schedule is used up).
  \<open>fresh_char\<close>, \<open>fresh_line\<close> and \<open>fresh_byte\<close> are
  the indeterminate contents of freshly allocated memory. \<open>start\<close> and \<open>lines\<close>
  are the two locals of \<^verbatim>\<open>main\<close> that \<^verbatim>\<open>run_instructions\<close> receives by
  reference (first line and current line). \<open>sigint\<close> is the schedule of the
  interrupt: its k-th entry tells whether SIGINT arrives before the k-th read
  of \<open>stop_insertion\<close>. Standard input is not a field: the functions that read
  it take the pending bytes and return what they leave.
\<close>

record state =
  char_heap :: "addr \<rightharpoonup> character"
  line_heap :: "addr \<rightharpoonup> line"
  char_block :: "addr \<rightharpoonup> char"
  line_block :: "addr \<rightharpoonup> addr option"
  brk :: addr
  malloc_null :: "bool list"
  fresh_char :: "addr \<Rightarrow> character"
  fresh_line :: "addr \<Rightarrow> line"
  fresh_byte :: "nat \<Rightarrow> char"
  start :: "addr option"
  lines :: "addr option"
  stop_insertion :: bool
  sigint :: "bool list"
  stdout :: string
  stderr :: string
  files :: "string \<Rightarrow> fnode"

abbreviation NUL :: char where "NUL \<equiv> CHR 0x00"
abbreviation NL :: char where "NL \<equiv> CHR 0x0A"
abbreviation SPACE :: char where "SPACE \<equiv> CHR 0x20"

text \<open>
  A \<^verbatim>\<open>char *\<close> is the list of the bytes it points to; the terminating NUL of
  the array is implicit at the end of the list, so \<^verbatim>\<open>*src\<close> at the end reads
  NUL. Bytes after an embedded NUL are part of the array but not of the string.
\<close>

definition deref :: "string \<Rightarrow> char" where
  "deref src = (case src of [] \<Rightarrow> NUL | x # _ \<Rightarrow> x)"

definition c_string :: "string \<Rightarrow> string" where
  "c_string buffer = takeWhile (\<lambda>x. x \<noteq> NUL) buffer"

subsection \<open>Pointer access\<close>

text \<open>
  \<open>get_char\<close> and \<open>set_char\<close>, \<open>get_line\<close> and \<open>set_line\<close> are the accesses to
  the members \<^verbatim>\<open>next\<close> and \<^verbatim>\<open>prev\<close> through a pointer: the block pointed to
  must hold the whole struct.
\<close>

definition get_char :: "state \<Rightarrow> addr option \<Rightarrow> character result" where
  "get_char w p =
     (case p of None \<Rightarrow> Fault
      | Some a \<Rightarrow> (case char_heap w a of None \<Rightarrow> Fault | Some nd \<Rightarrow> Return nd))"

definition set_char :: "addr option \<Rightarrow> (character \<Rightarrow> character) \<Rightarrow> state \<Rightarrow> state result" where
  "set_char p f w =
     (case p of None \<Rightarrow> Fault
      | Some a \<Rightarrow> (case char_heap w a of None \<Rightarrow> Fault
                   | Some nd \<Rightarrow> Return (w\<lparr>char_heap := (char_heap w)(a \<mapsto> f nd)\<rparr>)))"

definition get_line :: "state \<Rightarrow> addr option \<Rightarrow> line result" where
  "get_line w p =
     (case p of None \<Rightarrow> Fault
      | Some a \<Rightarrow> (case line_heap w a of None \<Rightarrow> Fault | Some ln \<Rightarrow> Return ln))"

definition set_line :: "addr option \<Rightarrow> (line \<Rightarrow> line) \<Rightarrow> state \<Rightarrow> state result" where
  "set_line p f w =
     (case p of None \<Rightarrow> Fault
      | Some a \<Rightarrow> (case line_heap w a of None \<Rightarrow> Fault
                   | Some ln \<Rightarrow> Return (w\<lparr>line_heap := (line_heap w)(a \<mapsto> f ln)\<rparr>)))"

text \<open>
  The accesses to the first member, \<^verbatim>\<open>p->c = x\<close>, \<^verbatim>\<open>p->data\<close> and
  \<^verbatim>\<open>p->data = d\<close>: the first member lies inside a block of pointer size as
  well.
\<close>

definition set_c :: "addr option \<Rightarrow> char \<Rightarrow> state \<Rightarrow> state result" where
  "set_c p x w =
     (case p of None \<Rightarrow> Fault
      | Some a \<Rightarrow>
          (case char_heap w a of
             Some nd \<Rightarrow> Return (w\<lparr>char_heap := (char_heap w)(a \<mapsto> nd\<lparr>c_val := x\<rparr>)\<rparr>)
           | None \<Rightarrow>
               (case char_block w a of None \<Rightarrow> Fault
                | Some _ \<Rightarrow> Return (w\<lparr>char_block := (char_block w)(a \<mapsto> x)\<rparr>))))"

definition get_data :: "state \<Rightarrow> addr option \<Rightarrow> addr option result" where
  "get_data w p =
     (case p of None \<Rightarrow> Fault
      | Some a \<Rightarrow>
          (case line_heap w a of
             Some ln \<Rightarrow> Return (l_data ln)
           | None \<Rightarrow> (case line_block w a of None \<Rightarrow> Fault | Some d \<Rightarrow> Return d)))"

definition set_data :: "addr option \<Rightarrow> addr option \<Rightarrow> state \<Rightarrow> state result" where
  "set_data p d w =
     (case p of None \<Rightarrow> Fault
      | Some a \<Rightarrow>
          (case line_heap w a of
             Some ln \<Rightarrow> Return (w\<lparr>line_heap := (line_heap w)(a \<mapsto> ln\<lparr>l_data := d\<rparr>)\<rparr>)
           | None \<Rightarrow>
               (case line_block w a of None \<Rightarrow> Fault
                | Some _ \<Rightarrow> Return (w\<lparr>line_block := (line_block w)(a \<mapsto> d)\<rparr>))))"

text \<open>\<^verbatim>\<open>free(p)\<close>: nothing for \<^verbatim>\<open>NULL\<close>, undefined for what is not allocated.\<close>

definition free_char :: "addr option \<Rightarrow> state \<Rightarrow> state result" where
  "free_char p w =
     (case p of None \<Rightarrow> Return w
      | Some a \<Rightarrow>
          (case char_heap w a of
             Some nd \<Rightarrow> Return (w\<lparr>char_heap := (char_heap w)(a := None)\<rparr>)
           | None \<Rightarrow>
               (case char_block w a of None \<Rightarrow> Fault
                | Some _ \<Rightarrow> Return (w\<lparr>char_block := (char_block w)(a := None)\<rparr>))))"

definition free_line :: "addr option \<Rightarrow> state \<Rightarrow> state result" where
  "free_line p w =
     (case p of None \<Rightarrow> Return w
      | Some a \<Rightarrow>
          (case line_heap w a of
             Some ln \<Rightarrow> Return (w\<lparr>line_heap := (line_heap w)(a := None)\<rparr>)
           | None \<Rightarrow>
               (case line_block w a of None \<Rightarrow> Fault
                | Some _ \<Rightarrow> Return (w\<lparr>line_block := (line_block w)(a := None)\<rparr>))))"

subsection \<open>Allocation\<close>

text \<open>
  \<^verbatim>\<open>MALLOC(s)\<close> calls \<^verbatim>\<open>malloc(s)\<close> and, when that returns \<^verbatim>\<open>NULL\<close>, prints a
  message and ends the process with \<^verbatim>\<open>exit(EXIT_FAILURE)\<close>. Here it consumes
  one entry of the schedule; the caller, which knows the size it has asked for,
  enters the block at \<open>brk\<close> into the heap.
\<close>

definition MALLOC :: "state \<Rightarrow> state result" where
  "MALLOC w =
     (case malloc_null w of
        [] \<Rightarrow> Return w
      | null # later \<Rightarrow> if null then Exit_failure else Return (w\<lparr>malloc_null := later\<rparr>))"

text \<open>
  \<^verbatim>\<open>ALLOC_LL(t)\<close> is \<^verbatim>\<open>(t) MALLOC(sizeof(t))\<close>, and wherever the macro is used
  \<open>t\<close> is a pointer type: \<^verbatim>\<open>struct character *\<close> in \<^verbatim>\<open>charray_to_line\<close>,
  \<^verbatim>\<open>struct line *\<close> in \<^verbatim>\<open>read_lines\<close> and \<^verbatim>\<open>insert_line\<close>, and \<^verbatim>\<open>typeof(x)\<close>
  for a pointer \<open>x\<close> in \<^verbatim>\<open>APPEND_LL\<close>. The block it returns therefore has the
  size of a pointer, not of the struct: it holds the first member, with
  indeterminate contents, and no \<^verbatim>\<open>next\<close> and \<^verbatim>\<open>prev\<close>. The block is new, so
  nothing else lives at its address.
\<close>

definition ALLOC_LL_character :: "state \<Rightarrow> (addr option \<times> state) result" where
  "ALLOC_LL_character w =
     rbind (MALLOC w) (\<lambda>w0.
     Return (Some (brk w0),
       w0\<lparr>char_heap := (char_heap w0)(brk w0 := None),
          char_block := (char_block w0)(brk w0 \<mapsto> c_val (fresh_char w0 (brk w0))),
          brk := Suc (brk w0)\<rparr>))"

definition ALLOC_LL_line :: "state \<Rightarrow> (addr option \<times> state) result" where
  "ALLOC_LL_line w =
     rbind (MALLOC w) (\<lambda>w0.
     Return (Some (brk w0),
       w0\<lparr>line_heap := (line_heap w0)(brk w0 := None),
          line_block := (line_block w0)(brk w0 \<mapsto> l_data (fresh_line w0 (brk w0))),
          brk := Suc (brk w0)\<rparr>))"

text \<open>
  \<^verbatim>\<open>(char *) MALLOC(n)\<close>: an array of \<open>n\<close> bytes with indeterminate contents.
  The array is a value of the model, not a block of its heaps.
\<close>

definition MALLOC_bytes :: "nat \<Rightarrow> state \<Rightarrow> (string \<times> state) result" where
  "MALLOC_bytes n w = rbind (MALLOC w) (\<lambda>w0. Return (map (fresh_byte w0) [0..<n], w0))"

text \<open>
  \<^verbatim>\<open>APPEND_LL(x)\<close>: \<^verbatim>\<open>x->next = ALLOC_LL(typeof(x)); x->next->prev = x;
  x->next->next = NULL;\<close>
\<close>

definition APPEND_LL_character :: "addr option \<Rightarrow> state \<Rightarrow> state result" where
  "APPEND_LL_character x w =
     rbind (ALLOC_LL_character w) (\<lambda>(n, w0).
     rbind (set_char x (\<lambda>nd. nd\<lparr>c_next := n\<rparr>) w0) (\<lambda>w1.
     rbind (get_char w1 x) (\<lambda>xd.
     rbind (set_char (c_next xd) (\<lambda>nd. nd\<lparr>c_prev := x\<rparr>) w1) (\<lambda>w2.
     rbind (get_char w2 x) (\<lambda>xd'.
     set_char (c_next xd') (\<lambda>nd. nd\<lparr>c_next := None\<rparr>) w2)))))"

definition APPEND_LL_line :: "addr option \<Rightarrow> state \<Rightarrow> state result" where
  "APPEND_LL_line x w =
     rbind (ALLOC_LL_line w) (\<lambda>(n, w0).
     rbind (set_line x (\<lambda>ln. ln\<lparr>l_next := n\<rparr>) w0) (\<lambda>w1.
     rbind (get_line w1 x) (\<lambda>xl.
     rbind (set_line (l_next xl) (\<lambda>ln. ln\<lparr>l_prev := x\<rparr>) w1) (\<lambda>w2.
     rbind (get_line w2 x) (\<lambda>xl'.
     set_line (l_next xl') (\<lambda>ln. ln\<lparr>l_next := None\<rparr>) w2)))))"

section \<open>Serializer\<close>

subsection \<open>\<^verbatim>\<open>charray_to_line\<close>\<close>

text \<open>
  The \<^verbatim>\<open>for\<close> loop of \<^verbatim>\<open>charray_to_line\<close>: it returns the rest of \<^verbatim>\<open>src\<close>
  where it stopped, the last value of \<^verbatim>\<open>idx\<close>, and the state.
\<close>

fun charray_loop :: "string \<Rightarrow> addr option \<Rightarrow> state \<Rightarrow> (string \<times> addr option \<times> state) result" where
  "charray_loop [] idx w = Return ([], idx, w)"
| "charray_loop (x # src) idx w =
     (if x \<noteq> NL \<and> x \<noteq> NUL then
        rbind (set_c idx x w) (\<lambda>w1.
        rbind (APPEND_LL_character idx w1) (\<lambda>w2.
        rbind (get_char w2 idx) (\<lambda>nd.
        charray_loop src (c_next nd) w2)))
      else Return (x # src, idx, w))"

text \<open>What follows the loop: the test on \<^verbatim>\<open>*src\<close> and its two branches.\<close>

definition charray_finish :: "string \<Rightarrow> addr option \<Rightarrow> state \<Rightarrow> state result" where
  "charray_finish src idx w =
     (if deref src = NL \<or> deref src = NUL then
        rbind (set_c idx SPACE w) (\<lambda>w1.
        set_char idx (\<lambda>nd. nd\<lparr>c_next := None\<rparr>) w1)
      else
        rbind (get_char w idx) (\<lambda>nd.
        let idx' = c_prev nd in
        rbind (get_char w idx') (\<lambda>nd'.
        rbind (free_char (c_next nd') w) (\<lambda>w1.
        set_char idx' (\<lambda>nd. nd\<lparr>c_next := None\<rparr>) w1))))"

definition charray_to_line :: "addr option \<Rightarrow> string \<Rightarrow> state \<Rightarrow> state result" where
  "charray_to_line dest src w =
     rbind (ALLOC_LL_character w) (\<lambda>(chars, w0).
     rbind (charray_loop src chars w0) (\<lambda>(src', idx, w1).
     rbind (charray_finish src' idx w1) (\<lambda>w2.
     set_data dest chars w2)))"

subsection \<open>\<^verbatim>\<open>lines_to_charray\<close>\<close>

text \<open>
  The \<^verbatim>\<open>while\<close> loop that counts the chain (\<^verbatim>\<open>size_t\<close> taken as unbounded). It
  reads \<^verbatim>\<open>idx->next\<close>, so every block it visits must hold a whole struct; and
  so must those the other loops over a chain visit, which read \<^verbatim>\<open>next\<close> after
  \<^verbatim>\<open>c\<close>.
\<close>

partial_function (option) count_chars :: "state \<Rightarrow> addr option \<Rightarrow> nat \<Rightarrow> nat result option" where
  "count_chars w idx buffer_size =
     (case idx of None \<Rightarrow> Some (Return buffer_size)
      | Some a \<Rightarrow> (case char_heap w a of None \<Rightarrow> Some Fault
                   | Some nd \<Rightarrow> count_chars w (c_next nd) (buffer_size + 1)))"

text \<open>The \<^verbatim>\<open>for\<close> loop that copies the chain; a write past the buffer is a fault.\<close>

partial_function (option) copy_chars :: "state \<Rightarrow> addr option \<Rightarrow> nat \<Rightarrow> string \<Rightarrow> string result option" where
  "copy_chars w idx i buffer =
     (case idx of None \<Rightarrow> Some (Return buffer)
      | Some a \<Rightarrow> (case char_heap w a of None \<Rightarrow> Some Fault
                   | Some nd \<Rightarrow>
                       if i < length buffer
                       then copy_chars w (c_next nd) (i + 1) (buffer[i := c_val nd])
                       else Some Fault))"

text \<open>
  The result is the whole array of \<open>buffer_size + 2\<close> bytes, its last byte the
  terminating NUL (\<open>c_string\<close> gives the text it holds), and the state, in
  which \<^verbatim>\<open>malloc\<close> has been called once.
\<close>

definition lines_to_charray :: "state \<Rightarrow> addr option \<Rightarrow> (string \<times> state) result option" where
  "lines_to_charray w line =
     obind (Some (get_data w line)) (\<lambda>chars.
     obind (count_chars w chars 0) (\<lambda>buffer_size.
     obind (Some (MALLOC_bytes (buffer_size + 2) w)) (\<lambda>(buffer0, w0).
     obind (copy_chars w0 chars 0 buffer0) (\<lambda>buffer.
     Some (Return (buffer[buffer_size := NL, buffer_size + 1 := NUL], w0))))))"

subsection \<open>Streams and files\<close>

text \<open>
  \<^verbatim>\<open>getline\<close> of the C library on the pending bytes of a stream: nothing at
  end of input (the call returns -1), else the bytes up to and including the
  first newline (or all of them when there is none), and the rest of the
  stream.
\<close>

definition getline :: "string \<Rightarrow> (string \<times> string) option" where
  "getline s =
     (if s = [] then None
      else (case dropWhile (\<lambda>x. x \<noteq> NL) s of
              [] \<Rightarrow> Some (s, [])
            | _ # rest \<Rightarrow> Some (takeWhile (\<lambda>x. x \<noteq> NL) s @ [NL], rest)))"

datatype errno = ENOENT | EACCES

definition fopen_r :: "string \<Rightarrow> state \<Rightarrow> errno + string" where
  "fopen_r fname w =
     (case content (files w fname) of None \<Rightarrow> Inl ENOENT
      | Some bytes \<Rightarrow> if may_read (files w fname) then Inr bytes else Inl EACCES)"

text \<open>Modes \<^verbatim>\<open>"w"\<close> and \<^verbatim>\<open>"w+"\<close>: the file is created or truncated; \<open>None\<close> is \<^verbatim>\<open>NULL\<close>.\<close>

definition fopen_w :: "string \<Rightarrow> state \<Rightarrow> state option" where
  "fopen_w fname w =
     (if may_write (files w fname)
      then Some (w\<lparr>files := (files w)(fname := (files w fname)\<lparr>content := Some []\<rparr>)\<rparr>)
      else None)"

datatype handle = Stdout | File_handle string

definition fputs :: "handle \<Rightarrow> string \<Rightarrow> state \<Rightarrow> state" where
  "fputs file text w =
     (case file of
        Stdout \<Rightarrow> w\<lparr>stdout := stdout w @ text\<rparr>
      | File_handle fname \<Rightarrow>
          w\<lparr>files := (files w)(fname := (files w fname)
               \<lparr>content := Some ((case content (files w fname) of None \<Rightarrow> [] | Some bytes \<Rightarrow> bytes) @ text)\<rparr>)\<rparr>)"

section \<open>Loading and storing the buffer\<close>

text \<open>The message of \<^verbatim>\<open>perror\<close> is not modelled; the exit that follows it is.\<close>

definition create_empty_file :: "string \<Rightarrow> state \<Rightarrow> (string \<times> state) result" where
  "create_empty_file fname w =
     (case fopen_w fname w of None \<Rightarrow> Exit_failure | Some w' \<Rightarrow> Return ([], w'))"

text \<open>
  The \<^verbatim>\<open>while\<close> loop of \<^verbatim>\<open>read_lines\<close> over the bytes still to read from
  \<open>file\<close>.
\<close>

function read_loop :: "string \<Rightarrow> addr option \<Rightarrow> int \<Rightarrow> state \<Rightarrow> (addr option \<times> int \<times> state) result" where
  "read_loop file idx lines_read w =
     (case getline file of None \<Rightarrow> Return (idx, lines_read, w)
      | Some (current_line, file') \<Rightarrow>
          rbind (charray_to_line idx current_line w) (\<lambda>w1.
          rbind (APPEND_LL_line idx w1) (\<lambda>w2.
          rbind (get_line w2 idx) (\<lambda>ln.
          read_loop file' (l_next ln) (if lines_read = 0 then 1 else lines_read) w2))))"
  by pat_completeness auto
termination
proof -
  have shorter: "length rest < length bytes"
    if "getline bytes = Some (buffer, rest)" for bytes buffer rest
  proof -
    have "length (dropWhile (\<lambda>x. x \<noteq> NL) bytes) \<le> length bytes"
      by (rule length_dropWhile_le)
    with that show ?thesis
      by (auto simp: getline_def split: if_splits list.splits)
  qed
  show ?thesis
    by (relation "measure (\<lambda>(bytes, idx, lines_read, w). length bytes)")
       (auto dest: shorter)
qed

declare read_loop.simps [simp del]

text \<open>\<^verbatim>\<open>*dest\<close> is the local \<^verbatim>\<open>lines\<close> of \<^verbatim>\<open>main\<close>.\<close>

definition read_lines :: "string \<Rightarrow> state \<Rightarrow> state result" where
  "read_lines fname w =
     rbind (case fopen_r fname w of
              Inr file \<Rightarrow> Return (file, w)
            | Inl e \<Rightarrow> if e = ENOENT then create_empty_file fname w else Exit_failure)
       (\<lambda>(file, w0).
     rbind (ALLOC_LL_line w0) (\<lambda>(d, w1).
     let w2 = w1\<lparr>lines := d\<rparr> in
     rbind (set_line (lines w2) (\<lambda>ln. ln\<lparr>l_prev := None\<rparr>) w2) (\<lambda>w3.
     rbind (set_line (lines w3) (\<lambda>ln. ln\<lparr>l_next := None\<rparr>) w3) (\<lambda>w4.
     rbind (read_loop file (lines w4) 0 w4) (\<lambda>(idx, lines_read, w5).
     if lines_read = 0 then
       rbind (free_line (lines w5) w5) (\<lambda>w6. Return (w6\<lparr>lines := None\<rparr>))
     else
       rbind (get_line w5 idx) (\<lambda>ln.
       let idx' = l_prev ln in
       rbind (get_line w5 idx') (\<lambda>ln'.
       rbind (free_line (l_next ln') w5) (\<lambda>w6.
       set_line idx' (\<lambda>ln. ln\<lparr>l_next := None\<rparr>) w6))))))))"

partial_function (option) print_chars :: "addr option \<Rightarrow> state \<Rightarrow> state result option" where
  "print_chars chars w =
     (case chars of None \<Rightarrow> Some (Return w)
      | Some a \<Rightarrow> (case char_heap w a of None \<Rightarrow> Some Fault
                   | Some nd \<Rightarrow> print_chars (c_next nd) (fputs Stdout [c_val nd] w)))"

definition print_line :: "addr option \<Rightarrow> state \<Rightarrow> state result option" where
  "print_line ln_ptr w =
     obind (if ln_ptr \<noteq> None
            then obind (Some (get_data w ln_ptr)) (\<lambda>chars. print_chars chars w)
            else Some (Return w)) (\<lambda>w1.
     Some (Return (fputs Stdout [NL] w1)))"

text \<open>\<^verbatim>\<open>tmp = chars->next; free(chars); chars = tmp;\<close> until \<^verbatim>\<open>chars\<close> is \<^verbatim>\<open>NULL\<close>.\<close>

partial_function (option) destroy_chars :: "addr option \<Rightarrow> state \<Rightarrow> state result option" where
  "destroy_chars chars w =
     (case chars of None \<Rightarrow> Some (Return w)
      | Some a \<Rightarrow> (case char_heap w a of None \<Rightarrow> Some Fault
                   | Some nd \<Rightarrow>
                       destroy_chars (c_next nd) (w\<lparr>char_heap := (char_heap w)(a := None)\<rparr>)))"

definition destroy_line :: "addr option \<Rightarrow> state \<Rightarrow> state result option" where
  "destroy_line ln_ptr w =
     obind (Some (get_data w ln_ptr)) (\<lambda>chars.
     obind (destroy_chars chars w) (\<lambda>w1.
     Some (free_line ln_ptr w1)))"

text \<open>
  \<^verbatim>\<open>fprintf(file, "%s", line)\<close> writes the bytes of \<^verbatim>\<open>line\<close> before its first
  NUL; then the array is freed and \<^verbatim>\<open>lines->next\<close> is read.
\<close>

partial_function (option) lines_to_handle :: "handle \<Rightarrow> addr option \<Rightarrow> state \<Rightarrow> state result option" where
  "lines_to_handle file ln_ptr w =
     (case ln_ptr of None \<Rightarrow> Some (Return w)
      | Some a \<Rightarrow>
          (case lines_to_charray w ln_ptr of None \<Rightarrow> None
           | Some r \<Rightarrow>
               (case r of Fault \<Rightarrow> Some Fault
                | Exit_failure \<Rightarrow> Some Exit_failure
                | Return b \<Rightarrow>
                    (case line_heap (snd b) a of None \<Rightarrow> Some Fault
                     | Some ln \<Rightarrow>
                         lines_to_handle file (l_next ln)
                           (fputs file (c_string (fst b)) (snd b))))))"

definition write_lines :: "string \<Rightarrow> addr option \<Rightarrow> state \<Rightarrow> state result option" where
  "write_lines fname ln_ptr w =
     (case fopen_w fname w of None \<Rightarrow> Some Exit_failure
      | Some w' \<Rightarrow> lines_to_handle (File_handle fname) ln_ptr w')"

section \<open>Mutation\<close>

definition sigint_handler :: "state \<Rightarrow> state" where
  "sigint_handler w = w\<lparr>stop_insertion := True\<rparr>"

text \<open>
  A read of \<^verbatim>\<open>stop_insertion\<close>: the handler runs first when the schedule says
  that SIGINT has arrived since the last access to the flag.
\<close>

definition read_stop_insertion :: "state \<Rightarrow> bool \<times> state" where
  "read_stop_insertion w =
     (case sigint w of
        [] \<Rightarrow> (stop_insertion w, w)
      | arrived # later \<Rightarrow>
          (let w' = (if arrived then sigint_handler w else w)\<lparr>sigint := later\<rparr>
           in (stop_insertion w', w')))"

text \<open>
  The \<^verbatim>\<open>while (!stop_insertion)\<close> loop of \<^verbatim>\<open>insert_line\<close>, on the pending
  bytes \<open>inp\<close> of standard input; \<^verbatim>\<open>*line\<close> is \<open>lines w\<close> and \<^verbatim>\<open>*start\<close> is
  \<open>start w\<close>.
\<close>

function insert_loop :: "string \<Rightarrow> state \<Rightarrow> (string \<times> state) result" where
  "insert_loop inp w =
     (let (stop, w0) = read_stop_insertion w in
      if stop then Return (inp, w0)
      else
        rbind (ALLOC_LL_line w0) (\<lambda>(new_line, w1).
        case getline inp of None \<Rightarrow> Exit_failure
        | Some (buffer, inp') \<Rightarrow>
            let (stop', w2) = read_stop_insertion w1 in
            if stop' then Return (inp', w2)
            else
              rbind (charray_to_line new_line buffer w2) (\<lambda>w3.
              if lines w3 = None then
                rbind (set_line new_line (\<lambda>ln. ln\<lparr>l_next := None\<rparr>) w3) (\<lambda>w4.
                rbind (set_line new_line (\<lambda>ln. ln\<lparr>l_prev := None\<rparr>) w4) (\<lambda>w5.
                let w6 = w5\<lparr>lines := new_line\<rparr>; w7 = w6\<lparr>start := lines w6\<rparr> in
                insert_loop inp' w7))
              else
                rbind (get_line w3 (lines w3)) (\<lambda>cur.
                rbind (set_line new_line (\<lambda>ln. ln\<lparr>l_next := l_next cur\<rparr>) w3) (\<lambda>w4.
                rbind (set_line new_line (\<lambda>ln. ln\<lparr>l_prev := lines w4\<rparr>) w4) (\<lambda>w5.
                rbind (get_line w5 (lines w5)) (\<lambda>cur'.
                rbind (if l_next cur' \<noteq> None
                       then set_line (l_next cur') (\<lambda>ln. ln\<lparr>l_prev := new_line\<rparr>) w5
                       else Return w5) (\<lambda>w6.
                rbind (set_line (lines w6) (\<lambda>ln. ln\<lparr>l_next := new_line\<rparr>) w6) (\<lambda>w7.
                insert_loop inp' (w7\<lparr>lines := new_line\<rparr>))))))))))"
  by pat_completeness auto
termination
proof -
  have shorter: "length rest < length bytes"
    if "getline bytes = Some (buffer, rest)" for bytes buffer rest
  proof -
    have "length (dropWhile (\<lambda>x. x \<noteq> NL) bytes) \<le> length bytes"
      by (rule length_dropWhile_le)
    with that show ?thesis
      by (auto simp: getline_def split: if_splits list.splits)
  qed
  show ?thesis
    by (relation "measure (\<lambda>(inp, w). length inp)")
       (auto dest: shorter)
qed

declare insert_loop.simps [simp del]

definition insert_line :: "string \<Rightarrow> state \<Rightarrow> (string \<times> state) result" where
  "insert_line inp w = insert_loop inp (w\<lparr>stop_insertion := False\<rparr>)"

text \<open>
  \<^verbatim>\<open>delete_line(start, line)\<close>. The local \<^verbatim>\<open>ret\<close> has no initial value: it is
  \<open>None\<close> until one of the three tests assigns it, and returning it unassigned
  would be a fault.
\<close>

definition delete_line :: "addr option \<Rightarrow> state \<Rightarrow> (addr option \<times> state) result option" where
  "delete_line ln_ptr w =
     (if ln_ptr = None then Some (Return (None, w))
      else
        obind (Some (get_line w ln_ptr)) (\<lambda>l0.
        let w1 = (if start w = ln_ptr then w\<lparr>start := l_next l0\<rparr> else w) in
        obind (Some (get_line w1 ln_ptr)) (\<lambda>l1.
        obind (Some (if l_next l1 \<noteq> None
                     then rbind (set_line (l_next l1) (\<lambda>ln. ln\<lparr>l_prev := l_prev l1\<rparr>) w1)
                            (\<lambda>w2. Return (Some (l_next l1), w2))
                     else Return (None, w1))) (\<lambda>(ret1, w2).
        obind (Some (get_line w2 ln_ptr)) (\<lambda>l2.
        obind (Some (if l_prev l2 \<noteq> None
                     then rbind (set_line (l_prev l2) (\<lambda>ln. ln\<lparr>l_next := l_next l2\<rparr>) w2)
                            (\<lambda>w3. Return (Some (l_prev l2), w3))
                     else Return (ret1, w2))) (\<lambda>(ret2, w3).
        obind (Some (get_line w3 ln_ptr)) (\<lambda>l3.
        let ret3 = (if l_next l3 = None \<and> l_prev l3 = None then Some None else ret2) in
        obind (destroy_line ln_ptr w3) (\<lambda>w4.
        Some (case ret3 of None \<Rightarrow> Fault | Some ret \<Rightarrow> Return (ret, w4))))))))))"

section \<open>Command interpreter\<close>

definition quoted :: "string \<Rightarrow> string" where
  "quoted s = [CHR 0x27] @ s @ [CHR 0x27]"

definition usage_text :: string where
  "usage_text =
     [NL] @ ''Blob | TSOA, 2023'' @ [NL] @
     ''A line-oriented text editor, which aims to be simple and effective.'' @ [NL] @
     ''As of now, it has only been tested on GNU/Linux.'' @ [NL, NL] @
     quoted ''n'' @ '' (next): go to the next line.'' @ [NL] @
     quoted ''b'' @ '' (back): go to the previous line.'' @ [NL] @
     quoted ''p'' @ '' (print): print the current line.'' @ [NL] @
     quoted ''i'' @ '' (insert): insert a single line, after the current line.'' @ [NL] @
     quoted ''l'' @ '' (list): list the contents of the file.'' @ [NL] @
     quoted ''d'' @ '' (delete): delete the current line.'' @ [NL] @
     quoted ''q'' @ '' (quit): quit the editor.'' @ [NL] @
     quoted ''w'' @ '' (write): write buffer to file.'' @ [NL] @
     quoted ''h'' @ '' (help): print this message.'' @ [NL] @
     [NL] @ ''You can string together commands, like so: '' @ quoted ''npi'' @
     '' (next, print, insert).'' @ [NL]"

definition usage :: "state \<Rightarrow> state" where
  "usage w = w\<lparr>stderr := stderr w @ usage_text\<rparr>"

text \<open>
  \<^verbatim>\<open>run_instructions(fname, start, lines, s)\<close> on the pending bytes \<open>inp\<close> of
  standard input: the value returned, what is left of standard input, and the
  state.
\<close>

fun run_instructions :: "string \<Rightarrow> string \<Rightarrow> string \<Rightarrow> state \<Rightarrow> (int \<times> string \<times> state) result option" where
  "run_instructions fname [] inp w = Some (Return (0, inp, w))"
| "run_instructions fname (x # s) inp w =
     (if x = NL \<or> x = NUL then Some (Return (0, inp, w))
      else if x = CHR ''n'' then
        (if lines w = None then Some (Return (- 1, inp, w))
         else obind (Some (get_line w (lines w))) (\<lambda>ln.
              if l_next ln = None then Some (Return (- 1, inp, w))
              else run_instructions fname s inp (w\<lparr>lines := l_next ln\<rparr>)))
      else if x = CHR ''b'' then
        (if lines w = None then Some (Return (- 2, inp, w))
         else obind (Some (get_line w (lines w))) (\<lambda>ln.
              if l_prev ln = None then Some (Return (- 2, inp, w))
              else run_instructions fname s inp (w\<lparr>lines := l_prev ln\<rparr>)))
      else if x = CHR ''p'' then
        obind (print_line (lines w) w) (\<lambda>w1. run_instructions fname s inp w1)
      else if x = CHR ''i'' then
        obind (Some (insert_line inp w)) (\<lambda>(inp1, w1). run_instructions fname s inp1 w1)
      else if x = CHR ''l'' then
        obind (lines_to_handle Stdout (start w) w) (\<lambda>w1. run_instructions fname s inp w1)
      else if x = CHR ''d'' then
        obind (delete_line (lines w) w) (\<lambda>(ret, w1).
        run_instructions fname s inp (w1\<lparr>lines := ret\<rparr>))
      else if x = CHR ''q'' then Some (Return (- 3, inp, w))
      else if x = CHR ''w'' then
        obind (write_lines fname (start w) w) (\<lambda>w1. run_instructions fname s inp w1)
      else if x = CHR ''h'' then run_instructions fname s inp (usage w)
      else run_instructions fname s inp w)"

text \<open>The \<^verbatim>\<open>switch\<close> of \<^verbatim>\<open>main\<close> on the value \<^verbatim>\<open>run_instructions\<close> returns.\<close>

datatype main_case = Print_EOF | Print_START | Goto_end | Write_lines | No_case

definition main_switch :: "int \<Rightarrow> main_case" where
  "main_switch r =
     (if r = - 1 then Print_EOF
      else if r = - 2 then Print_START
      else if r = - 3 then Goto_end
      else if r = - 4 then Write_lines
      else No_case)"

section \<open>Abstraction of the heap\<close>

text \<open>
  \<open>path nx p as q\<close>: following the link \<open>nx\<close> from pointer \<open>p\<close> one visits
  exactly the addresses \<open>as\<close>, all allocated, and arrives at \<open>q\<close>. The link of
  an address is \<open>None\<close> when the address is not allocated.
\<close>

fun path :: "(addr \<Rightarrow> addr option option) \<Rightarrow> addr option \<Rightarrow> addr list \<Rightarrow> addr option \<Rightarrow> bool" where
  "path nx p [] q = (p = q)"
| "path nx p (a # as) q =
     (p = Some a \<and> (case nx a of None \<Rightarrow> False | Some p' \<Rightarrow> path nx p' as q))"

definition char_next :: "state \<Rightarrow> addr \<Rightarrow> addr option option" where
  "char_next w a = map_option c_next (char_heap w a)"

definition line_next :: "state \<Rightarrow> addr \<Rightarrow> addr option option" where
  "line_next w a = map_option l_next (line_heap w a)"

definition line_prev :: "state \<Rightarrow> addr \<Rightarrow> addr option option" where
  "line_prev w a = map_option l_prev (line_heap w a)"

text \<open>
  \<open>char_seg h p cs q\<close>: following \<^verbatim>\<open>next\<close> from \<open>p\<close> one reads exactly the bytes
  \<open>cs\<close> and arrives at \<open>q\<close>. A Character Chain with text \<open>cs\<close> is a segment that
  ends in \<^verbatim>\<open>NULL\<close>.
\<close>

fun char_seg :: "(addr \<rightharpoonup> character) \<Rightarrow> addr option \<Rightarrow> string \<Rightarrow> addr option \<Rightarrow> bool" where
  "char_seg h p [] q = (p = q)"
| "char_seg h p (x # xs) q =
     (case p of None \<Rightarrow> False
      | Some a \<Rightarrow> (case h a of None \<Rightarrow> False
                   | Some nd \<Rightarrow> c_val nd = x \<and> char_seg h (c_next nd) xs q))"

definition chain :: "state \<Rightarrow> addr option \<Rightarrow> string \<Rightarrow> bool" where
  "chain w p cs = char_seg (char_heap w) p cs None"

text \<open>
  The cursor: whether \<open>lines w\<close> is \<^verbatim>\<open>NULL\<close> or points to an allocated line, and
  the \<^verbatim>\<open>next\<close> and \<^verbatim>\<open>prev\<close> of the current line (\<^verbatim>\<open>NULL\<close> when there is no
  current line).
\<close>

definition current_valid :: "state \<Rightarrow> bool" where
  "current_valid w = (case lines w of None \<Rightarrow> True | Some a \<Rightarrow> line_heap w a \<noteq> None)"

definition current_next :: "state \<Rightarrow> addr option" where
  "current_next w =
     (case lines w of None \<Rightarrow> None
      | Some a \<Rightarrow> (case line_heap w a of None \<Rightarrow> None | Some ln \<Rightarrow> l_next ln))"

definition current_prev :: "state \<Rightarrow> addr option" where
  "current_prev w =
     (case lines w of None \<Rightarrow> None
      | Some a \<Rightarrow> (case line_heap w a of None \<Rightarrow> None | Some ln \<Rightarrow> l_prev ln))"

text \<open>The characters \<^verbatim>\<open>run_instructions\<close> has a \<^verbatim>\<open>case\<close> for.\<close>

definition command :: "char \<Rightarrow> bool" where
  "command x = (x \<in> set ''nbpildqwh'')"

text \<open>
  Running the commands \<open>s\<close> after a run that gave \<open>r\<close>: nothing more happens
  when \<open>r\<close> is a signal other than 0.
\<close>

definition and_then :: "string \<Rightarrow> string \<Rightarrow> int \<times> string \<times> state \<Rightarrow> (int \<times> string \<times> state) result option" where
  "and_then fname s r =
     (case r of (sig, inp, w) \<Rightarrow>
        if sig \<noteq> 0 then Some (Return (sig, inp, w)) else run_instructions fname s inp w)"

text \<open>The bytes stored at the addresses \<open>as\<close> of the character heap.\<close>

definition chars_at :: "state \<Rightarrow> addr list \<Rightarrow> string" where
  "chars_at w as = map (\<lambda>a. case char_heap w a of None \<Rightarrow> NUL | Some nd \<Rightarrow> c_val nd) as"

text \<open>
  \<^verbatim>\<open>lines_to_charray\<close> of \<^verbatim>\<open>charray_to_line\<close>: the text that comes back from a
  raw line \<open>src\<close> stored into the line \<open>dest\<close>.
\<close>

definition round_trip :: "addr option \<Rightarrow> string \<Rightarrow> state \<Rightarrow> string result option" where
  "round_trip dest src w =
     obind (Some (charray_to_line dest src w)) (\<lambda>w'.
     obind (lines_to_charray w' dest) (\<lambda>(buffer, w''). Some (Return (c_string buffer))))"

text \<open>
  The Line Buffer. \<open>dll w as\<close>: the lines at the addresses \<open>as\<close>, in this
  order, are doubly linked: the \<^verbatim>\<open>next\<close> links lead from the first through all
  of them to \<^verbatim>\<open>NULL\<close>, and the \<^verbatim>\<open>prev\<close> links lead from the last back through
  all of them to \<^verbatim>\<open>NULL\<close>. \<open>line_buffer w as\<close>: moreover \<open>start w\<close> points to
  the first of them, they lie below \<open>brk w\<close>, and the cursor \<open>lines w\<close> is
  \<^verbatim>\<open>NULL\<close> or one of them.
\<close>

definition first_ptr :: "addr list \<Rightarrow> addr option" where
  "first_ptr as = (case as of [] \<Rightarrow> None | a # _ \<Rightarrow> Some a)"

definition last_ptr :: "addr list \<Rightarrow> addr option" where
  "last_ptr as = first_ptr (rev as)"

definition dll :: "state \<Rightarrow> addr list \<Rightarrow> bool" where
  "dll w as =
     (path (line_next w) (first_ptr as) as None \<and> path (line_prev w) (last_ptr as) (rev as) None)"




text \<open>The value a call returns, when it returns.\<close>

definition returned :: "('a \<times> state) result option \<Rightarrow> 'a option" where
  "returned r = (case r of Some (Return (x, w)) \<Rightarrow> Some x | _ \<Rightarrow> None)"

text \<open>
  The line heap once the neighbours of the line \<open>ln\<close> point to each other:
  \<^verbatim>\<open>ln->next->prev = ln->prev\<close> and \<^verbatim>\<open>ln->prev->next = ln->next\<close>.
\<close>

definition relink :: "(addr \<rightharpoonup> line) \<Rightarrow> line \<Rightarrow> (addr \<rightharpoonup> line)" where
  "relink h ln x =
     (if Some x = l_next ln then map_option (\<lambda>l. l\<lparr>l_prev := l_prev ln\<rparr>) (h x)
      else if Some x = l_prev ln then map_option (\<lambda>l. l\<lparr>l_next := l_next ln\<rparr>) (h x)
      else h x)"

text \<open>The bytes standard input delivers for the lines \<open>ls\<close>, each ended by a newline.\<close>

definition typed :: "string list \<Rightarrow> string" where
  "typed ls = concat (map (\<lambda>l. l @ [NL]) ls)"

section \<open>Example states\<close>

text \<open>A process that has allocated nothing, with an empty file system.\<close>

definition init_state :: state where
  "init_state =
     \<lparr>char_heap = Map.empty, line_heap = Map.empty,
      char_block = Map.empty, line_block = Map.empty, brk = 0, malloc_null = [],
      fresh_char = (\<lambda>_. \<lparr>c_val = CHR ''?'', c_next = None, c_prev = None\<rparr>),
      fresh_line = (\<lambda>_. \<lparr>l_data = None, l_next = None, l_prev = None\<rparr>),
      fresh_byte = (\<lambda>_. CHR ''?''),
      start = None, lines = None, stop_insertion = False, sigint = [],
      stdout = [], stderr = [],
      files = (\<lambda>_. \<lparr>content = None, may_read = True, may_write = True\<rparr>)\<rparr>"

text \<open>
  A buffer of three lines at the addresses 0, 1 and 2, holding \<^verbatim>\<open>"a "\<close>, \<^verbatim>\<open>"b "\<close>
  and \<^verbatim>\<open>"c "\<close>, with the cursor on the second line.
\<close>

definition demo :: state where
  "demo = init_state
     \<lparr>line_heap :=
        [0 \<mapsto> \<lparr>l_data = Some 3, l_next = Some 1, l_prev = None\<rparr>,
         1 \<mapsto> \<lparr>l_data = Some 5, l_next = Some 2, l_prev = Some 0\<rparr>,
         2 \<mapsto> \<lparr>l_data = Some 7, l_next = None, l_prev = Some 1\<rparr>],
      char_heap :=
        [3 \<mapsto> \<lparr>c_val = CHR ''a'', c_next = Some 4, c_prev = None\<rparr>,
         4 \<mapsto> \<lparr>c_val = SPACE, c_next = None, c_prev = Some 3\<rparr>,
         5 \<mapsto> \<lparr>c_val = CHR ''b'', c_next = Some 6, c_prev = None\<rparr>,
         6 \<mapsto> \<lparr>c_val = SPACE, c_next = None, c_prev = Some 5\<rparr>,
         7 \<mapsto> \<lparr>c_val = CHR ''c'', c_next = Some 8, c_prev = None\<rparr>,
         8 \<mapsto> \<lparr>c_val = SPACE, c_next = None, c_prev = Some 7\<rparr>],
      brk := 9, start := Some 0, lines := Some 1\<rparr>"

section \<open>Outcomes\<close>

lemma rbind_simps [simp]:
  "rbind (Return x) f = f x"
  "rbind Fault f = Fault"
  "rbind Exit_failure f = Exit_failure"
  by (simp_all add: rbind_def)

lemma obind_simps [simp]:
  "obind None g = None"
  "obind (Some (Return x)) g = g x"
  "obind (Some Fault) g = Some Fault"
  "obind (Some Exit_failure) g = Some Exit_failure"
  by (simp_all add: obind_def)

lemma obind_assoc: "obind (obind m f) g = obind m (\<lambda>x. obind (f x) g)"
  by (simp add: obind_def split: option.splits result.splits)

lemma obind_Return_iff:
  "obind m f = Some (Return y) \<longleftrightarrow> (\<exists>x. m = Some (Return x) \<and> f x = Some (Return y))"
  by (simp add: obind_def split: option.splits result.splits)

lemma obind_cong: "(\<And>x. m = Some (Return x) \<Longrightarrow> f x = g x) \<Longrightarrow> obind m f = obind m g"
  by (simp add: obind_def split: option.splits result.splits)

section \<open>The interpreter, case by case\<close>

text \<open>One equation for each \<^verbatim>\<open>case\<close> of the \<^verbatim>\<open>switch\<close>.\<close>

lemma run_end:
  "x = NL \<or> x = NUL \<Longrightarrow> run_instructions fname (x # s) inp w = Some (Return (0, inp, w))"
  by auto

lemma run_n:
  "run_instructions fname (CHR ''n'' # s) inp w =
     (if lines w = None then Some (Return (- 1, inp, w))
      else obind (Some (get_line w (lines w))) (\<lambda>ln.
           if l_next ln = None then Some (Return (- 1, inp, w))
           else run_instructions fname s inp (w\<lparr>lines := l_next ln\<rparr>)))"
  by simp

lemma run_b:
  "run_instructions fname (CHR ''b'' # s) inp w =
     (if lines w = None then Some (Return (- 2, inp, w))
      else obind (Some (get_line w (lines w))) (\<lambda>ln.
           if l_prev ln = None then Some (Return (- 2, inp, w))
           else run_instructions fname s inp (w\<lparr>lines := l_prev ln\<rparr>)))"
  by simp

lemma run_p:
  "run_instructions fname (CHR ''p'' # s) inp w =
     obind (print_line (lines w) w) (\<lambda>w1. run_instructions fname s inp w1)"
  by simp

lemma run_i:
  "run_instructions fname (CHR ''i'' # s) inp w =
     obind (Some (insert_line inp w)) (\<lambda>(inp1, w1). run_instructions fname s inp1 w1)"
  by simp

lemma run_l:
  "run_instructions fname (CHR ''l'' # s) inp w =
     obind (lines_to_handle Stdout (start w) w) (\<lambda>w1. run_instructions fname s inp w1)"
  by simp

lemma run_d:
  "run_instructions fname (CHR ''d'' # s) inp w =
     obind (delete_line (lines w) w) (\<lambda>(ret, w1).
       run_instructions fname s inp (w1\<lparr>lines := ret\<rparr>))"
  by simp

lemma run_q:
  "run_instructions fname (CHR ''q'' # s) inp w = Some (Return (- 3, inp, w))"
  by simp

lemma run_w:
  "run_instructions fname (CHR ''w'' # s) inp w =
     obind (write_lines fname (start w) w) (\<lambda>w1. run_instructions fname s inp w1)"
  by simp

lemma run_h:
  "run_instructions fname (CHR ''h'' # s) inp w = run_instructions fname s inp (usage w)"
  by simp

lemma run_skip:
  "\<not> command x \<Longrightarrow> x \<noteq> NL \<Longrightarrow> x \<noteq> NUL \<Longrightarrow>
   run_instructions fname (x # s) inp w = run_instructions fname s inp w"
  by (simp add: command_def)

lemma command_cases:
  obtains "x = NL \<or> x = NUL" | "x = CHR ''n''" | "x = CHR ''b''" | "x = CHR ''p''"
  | "x = CHR ''i''" | "x = CHR ''l''" | "x = CHR ''d''" | "x = CHR ''q''" | "x = CHR ''w''"
  | "x = CHR ''h''" | "\<not> command x" "x \<noteq> NL" "x \<noteq> NUL"
  unfolding command_def by auto

lemmas run_steps = run_n run_b run_p run_i run_l run_d run_q run_w run_h

lemma run_instructions_signal:
  "run_instructions fname s inp w = Some (Return (r, inp', w')) \<Longrightarrow> r \<in> {0, - 1, - 2, - 3}"
proof (induction s arbitrary: inp w)
  case Nil
  then show ?case by simp
next
  case (Cons x s)
  note run_instructions.simps(2) [simp del]
  show ?case
  proof (cases x rule: command_cases)
    case 1
    with Cons.prems show ?thesis by (simp add: run_end)
  next
    case 2
    with Cons show ?thesis
      by (auto simp: run_n obind_Return_iff split: if_splits)
  next
    case 3
    with Cons show ?thesis
      by (auto simp: run_b obind_Return_iff split: if_splits)
  next
    case 4
    with Cons show ?thesis
      by (auto simp: run_p obind_Return_iff)
  next
    case 5
    with Cons show ?thesis
      by (auto simp: run_i obind_Return_iff)
  next
    case 6
    with Cons show ?thesis
      by (auto simp: run_l obind_Return_iff)
  next
    case 7
    with Cons show ?thesis
      by (auto simp: run_d obind_Return_iff)
  next
    case 8
    with Cons.prems show ?thesis by (simp add: run_q)
  next
    case 9
    with Cons show ?thesis
      by (auto simp: run_w obind_Return_iff)
  next
    case 10
    with Cons show ?thesis
      by (auto simp: run_h)
  next
    case 11
    with Cons show ?thesis
      by (simp add: run_skip)
  qed
qed

lemma run_append:
  "NL \<notin> set pre \<Longrightarrow> NUL \<notin> set pre \<Longrightarrow>
   run_instructions fname (pre @ s) inp w = obind (run_instructions fname pre inp w) (and_then fname s)"
proof (induction pre arbitrary: inp w)
  case Nil
  then show ?case by (simp add: and_then_def)
next
  case (Cons x pre)
  note run_instructions.simps(2) [simp del]
  from Cons.prems have IH: "\<And>inp w. run_instructions fname (pre @ s) inp w
      = obind (run_instructions fname pre inp w) (and_then fname s)"
    by (intro Cons.IH) auto
  show ?case
  proof (cases x rule: command_cases)
    case 1
    with Cons.prems show ?thesis by auto
  next
    case 2
    then show ?thesis
      by (auto simp: run_n IH obind_assoc and_then_def intro!: obind_cong)
  next
    case 3
    then show ?thesis
      by (auto simp: run_b IH obind_assoc and_then_def intro!: obind_cong)
  next
    case 4
    then show ?thesis by (simp add: run_p IH obind_assoc)
  next
    case 5
    then show ?thesis by (simp add: run_i IH obind_assoc split_def)
  next
    case 6
    then show ?thesis by (simp add: run_l IH obind_assoc)
  next
    case 7
    then show ?thesis by (simp add: run_d IH obind_assoc split_def)
  next
    case 8
    then show ?thesis by (simp add: run_q and_then_def)
  next
    case 9
    then show ?thesis by (simp add: run_w IH obind_assoc)
  next
    case 10
    then show ?thesis by (simp add: run_h IH)
  next
    case 11
    then show ?thesis by (simp add: run_skip IH)
  qed
qed

lemma run_stop:
  "deref t = NL \<or> deref t = NUL \<Longrightarrow> run_instructions fname t inp w = Some (Return (0, inp, w))"
  by (cases t) (auto simp: deref_def)

section \<open>Claims about the interpreter\<close>

text \<open>
  C9. Whatever the input string and the state, a call of \<^verbatim>\<open>run_instructions\<close>
  that returns gives 0, -1, -2 or -3. It never gives -4, so the \<^verbatim>\<open>switch\<close> of
  \<^verbatim>\<open>main\<close> never takes its \<^verbatim>\<open>case -4\<close>, the one that calls \<^verbatim>\<open>write_lines\<close>.
\<close>

theorem run_instructions_returns_four_values:
  assumes "run_instructions fname s inp w = Some (Return (r, inp', w'))"
  shows "r \<in> {0, - 1, - 2, - 3} \<and> r \<noteq> - 4 \<and> main_switch r \<noteq> Write_lines"
proof -
  have "r \<in> {0, - 1, - 2, - 3}"
    using assms by (rule run_instructions_signal)
  then show ?thesis
    by (auto simp: main_switch_def)
qed

theorem run_instructions_returns_four_values_witness:
  "run_instructions ''f'' ''hq'' [] init_state = Some (Return (- 3, [], usage init_state))
   \<and> (- 3 :: int) \<in> {0, - 1, - 2, - 3} \<and> main_switch (- 3) \<noteq> Write_lines"
proof -
  have r: "run_instructions ''f'' ''hq'' [] init_state = Some (Return (- 3, [], usage init_state))"
    by simp
  from run_instructions_returns_four_values [OF r] r show ?thesis
    by simp
qed

lemma demo_simps [simp]:
  "lines demo = Some 1" "start demo = Some 0" "brk demo = 9"
  "line_heap demo 0 = Some \<lparr>l_data = Some 3, l_next = Some 1, l_prev = None\<rparr>"
  "line_heap demo 1 = Some \<lparr>l_data = Some 5, l_next = Some 2, l_prev = Some 0\<rparr>"
  "line_heap demo (Suc 0) = Some \<lparr>l_data = Some 5, l_next = Some 2, l_prev = Some 0\<rparr>"
  "line_heap demo 2 = Some \<lparr>l_data = Some 7, l_next = None, l_prev = Some 1\<rparr>"
  by (simp_all add: demo_def init_state_def)

text \<open>
  C4. With the cursor empty or on an allocated line, the command \<^verbatim>\<open>n\<close> (alone
  on its input line) returns -1 and leaves the state as it is exactly when
  there is no current line or the current line has no next; otherwise it
  returns 0 with the cursor on the next line. The command \<^verbatim>\<open>b\<close> does the same
  with -2 and the previous line.
\<close>

theorem advance_and_retreat:
  assumes "current_valid w" and "deref t = NL \<or> deref t = NUL"
  shows "run_instructions fname (CHR ''n'' # t) inp w =
           (if lines w = None \<or> current_next w = None
            then Some (Return (- 1, inp, w))
            else Some (Return (0, inp, w\<lparr>lines := current_next w\<rparr>)))
       \<and> run_instructions fname (CHR ''b'' # t) inp w =
           (if lines w = None \<or> current_prev w = None
            then Some (Return (- 2, inp, w))
            else Some (Return (0, inp, w\<lparr>lines := current_prev w\<rparr>)))"
proof -
  note run_instructions.simps(2) [simp del]
  have stop: "\<And>v. run_instructions fname t inp v = Some (Return (0, inp, v))"
    using assms(2) by (rule run_stop)
  show ?thesis
  proof (cases "lines w")
    case None
    then show ?thesis
      by (simp add: run_n run_b)
  next
    case (Some a)
    with assms(1) obtain ln where ln: "line_heap w a = Some ln"
      by (auto simp: current_valid_def)
    have n: "current_next w = l_next ln" and p: "current_prev w = l_prev ln"
      using Some ln by (simp_all add: current_next_def current_prev_def)
    show ?thesis
      using Some ln by (simp add: run_n run_b n p get_line_def stop)
  qed
qed

theorem advance_and_retreat_witness:
  "current_valid demo \<and> (deref [NL] = NL \<or> deref [NL] = NUL)
   \<and> run_instructions ''f'' ''n\<newline>'' [] demo = Some (Return (0, [], demo\<lparr>lines := Some 2\<rparr>))
   \<and> run_instructions ''f'' ''b\<newline>'' [] demo = Some (Return (0, [], demo\<lparr>lines := Some 0\<rparr>))
   \<and> run_instructions ''f'' ''n\<newline>'' [] (demo\<lparr>lines := Some 2\<rparr>)
        = Some (Return (- 1, [], demo\<lparr>lines := Some 2\<rparr>))
   \<and> run_instructions ''f'' ''b\<newline>'' [] (demo\<lparr>lines := None\<rparr>)
        = Some (Return (- 2, [], demo\<lparr>lines := None\<rparr>))"
proof -
  have v: "current_valid demo" "current_valid (demo\<lparr>lines := Some 2\<rparr>)"
      "current_valid (demo\<lparr>lines := None\<rparr>)"
    and d: "deref [NL] = NL \<or> deref [NL] = NUL"
    by (simp_all add: current_valid_def deref_def)
  show ?thesis
    using v(1) d advance_and_retreat [OF v(1) d, of "''f''" "[]"]
      advance_and_retreat [OF v(2) d, of "''f''" "[]"]
      advance_and_retreat [OF v(3) d, of "''f''" "[]"]
    by (simp add: current_next_def current_prev_def)
qed

text \<open>
  C3. The interpreter scans the input line from left to right. A character
  without a \<^verbatim>\<open>case\<close> is skipped; a newline or the end of the string ends the
  scan with 0 and the state as it is; \<^verbatim>\<open>q\<close> returns -3, and an \<^verbatim>\<open>n\<close> or \<^verbatim>\<open>b\<close>
  that cannot move returns -1 or -2, whatever follows on the line and with the
  state as it is. Every other command does its operation and the scan goes on
  with the rest of the line from the state the operation has left: an \<^verbatim>\<open>n\<close>
  or \<^verbatim>\<open>b\<close> that can move sets the cursor to the next or previous line, \<^verbatim>\<open>p\<close>
  prints the current line, \<^verbatim>\<open>i\<close> runs an insertion session on standard input,
  \<^verbatim>\<open>l\<close> lists the buffer, \<^verbatim>\<open>d\<close> deletes the current line and takes the
  pointer returned as the cursor, \<^verbatim>\<open>w\<close> writes the buffer to the file and
  \<^verbatim>\<open>h\<close> prints the help text. So running a line \<open>pre @ s\<close> is running \<open>pre\<close>
  and then, only when \<open>pre\<close> has ended with 0, running \<open>s\<close> from where \<open>pre\<close>
  has arrived.
\<close>

theorem interpreter_scan:
  "(\<not> command x \<and> x \<noteq> NL \<and> x \<noteq> NUL \<longrightarrow>
      run_instructions fname (x # s) inp w = run_instructions fname s inp w)
   \<and> (deref t = NL \<or> deref t = NUL \<longrightarrow>
      run_instructions fname t inp w = Some (Return (0, inp, w)))
   \<and> run_instructions fname (CHR ''q'' # s) inp w = Some (Return (- 3, inp, w))
   \<and> (current_valid w \<and> (lines w = None \<or> current_next w = None) \<longrightarrow>
      run_instructions fname (CHR ''n'' # s) inp w = Some (Return (- 1, inp, w)))
   \<and> (current_valid w \<and> (lines w = None \<or> current_prev w = None) \<longrightarrow>
      run_instructions fname (CHR ''b'' # s) inp w = Some (Return (- 2, inp, w)))
   \<and> (NL \<notin> set pre \<and> NUL \<notin> set pre \<longrightarrow>
      run_instructions fname (pre @ s) inp w
        = obind (run_instructions fname pre inp w) (and_then fname s))
   \<and> (current_valid w \<and> lines w \<noteq> None \<and> current_next w \<noteq> None \<longrightarrow>
      run_instructions fname (CHR ''n'' # s) inp w
        = run_instructions fname s inp (w\<lparr>lines := current_next w\<rparr>))
   \<and> (current_valid w \<and> lines w \<noteq> None \<and> current_prev w \<noteq> None \<longrightarrow>
      run_instructions fname (CHR ''b'' # s) inp w
        = run_instructions fname s inp (w\<lparr>lines := current_prev w\<rparr>))
   \<and> run_instructions fname (CHR ''p'' # s) inp w
        = obind (print_line (lines w) w) (\<lambda>w1. run_instructions fname s inp w1)
   \<and> run_instructions fname (CHR ''i'' # s) inp w
        = obind (Some (insert_line inp w)) (\<lambda>(inp1, w1). run_instructions fname s inp1 w1)
   \<and> run_instructions fname (CHR ''l'' # s) inp w
        = obind (lines_to_handle Stdout (start w) w) (\<lambda>w1. run_instructions fname s inp w1)
   \<and> run_instructions fname (CHR ''d'' # s) inp w
        = obind (delete_line (lines w) w)
            (\<lambda>(ret, w1). run_instructions fname s inp (w1\<lparr>lines := ret\<rparr>))
   \<and> run_instructions fname (CHR ''w'' # s) inp w
        = obind (write_lines fname (start w) w) (\<lambda>w1. run_instructions fname s inp w1)
   \<and> run_instructions fname (CHR ''h'' # s) inp w = run_instructions fname s inp (usage w)"
proof -
  note run_instructions.simps(2) [simp del]
  have skip: "\<not> command x \<and> x \<noteq> NL \<and> x \<noteq> NUL \<longrightarrow>
      run_instructions fname (x # s) inp w = run_instructions fname s inp w"
    by (simp add: run_skip)
  have stop: "deref t = NL \<or> deref t = NUL \<longrightarrow>
      run_instructions fname t inp w = Some (Return (0, inp, w))"
    by (simp add: run_stop)
  have n: "current_valid w \<and> (lines w = None \<or> current_next w = None) \<longrightarrow>
      run_instructions fname (CHR ''n'' # s) inp w = Some (Return (- 1, inp, w))"
    by (cases "lines w")
      (auto simp: run_n current_valid_def current_next_def get_line_def)
  have b: "current_valid w \<and> (lines w = None \<or> current_prev w = None) \<longrightarrow>
      run_instructions fname (CHR ''b'' # s) inp w = Some (Return (- 2, inp, w))"
    by (cases "lines w")
      (auto simp: run_b current_valid_def current_prev_def get_line_def)
  have seq: "NL \<notin> set pre \<and> NUL \<notin> set pre \<longrightarrow>
      run_instructions fname (pre @ s) inp w
        = obind (run_instructions fname pre inp w) (and_then fname s)"
    by (simp add: run_append)
  have n': "current_valid w \<and> lines w \<noteq> None \<and> current_next w \<noteq> None \<longrightarrow>
      run_instructions fname (CHR ''n'' # s) inp w
        = run_instructions fname s inp (w\<lparr>lines := current_next w\<rparr>)"
    by (cases "lines w")
      (auto simp: run_n current_valid_def current_next_def get_line_def)
  have b': "current_valid w \<and> lines w \<noteq> None \<and> current_prev w \<noteq> None \<longrightarrow>
      run_instructions fname (CHR ''b'' # s) inp w
        = run_instructions fname s inp (w\<lparr>lines := current_prev w\<rparr>)"
    by (cases "lines w")
      (auto simp: run_b current_valid_def current_prev_def get_line_def)
  from skip stop n b seq n' b' show ?thesis
    by (simp only: run_q run_p run_i run_l run_d run_w run_h simp_thms)
qed

theorem interpreter_scan_witness:
  "\<not> command (CHR ''x'') \<and> CHR ''x'' \<noteq> NL \<and> CHR ''x'' \<noteq> NUL
   \<and> (deref [NL] = NL \<or> deref [NL] = NUL)
   \<and> current_valid (demo\<lparr>lines := Some 2\<rparr>)
   \<and> (lines (demo\<lparr>lines := Some 2\<rparr>) = None \<or> current_next (demo\<lparr>lines := Some 2\<rparr>) = None)
   \<and> current_valid (demo\<lparr>lines := Some 0\<rparr>)
   \<and> (lines (demo\<lparr>lines := Some 0\<rparr>) = None \<or> current_prev (demo\<lparr>lines := Some 0\<rparr>) = None)
   \<and> NL \<notin> set ''xn'' \<and> NUL \<notin> set ''xn''
   \<and> current_valid demo \<and> lines demo \<noteq> None
   \<and> current_next demo = Some 2 \<and> current_prev demo = Some 0
   \<and> run_instructions ''f'' ''xq'' [] demo = run_instructions ''f'' ''q'' [] demo
   \<and> run_instructions ''f'' [NL] [] demo = Some (Return (0, [], demo))
   \<and> run_instructions ''f'' ''qd'' [] demo = Some (Return (- 3, [], demo))
   \<and> run_instructions ''f'' ''nd'' [] (demo\<lparr>lines := Some 2\<rparr>)
        = Some (Return (- 1, [], demo\<lparr>lines := Some 2\<rparr>))
   \<and> run_instructions ''f'' ''bd'' [] (demo\<lparr>lines := Some 0\<rparr>)
        = Some (Return (- 2, [], demo\<lparr>lines := Some 0\<rparr>))
   \<and> run_instructions ''f'' (''xn'' @ ''nd'') [] demo
        = obind (run_instructions ''f'' ''xn'' [] demo) (and_then ''f'' ''nd'')
   \<and> run_instructions ''f'' ''nq'' [] demo = Some (Return (- 3, [], demo\<lparr>lines := Some 2\<rparr>))
   \<and> run_instructions ''f'' ''bq'' [] demo = Some (Return (- 3, [], demo\<lparr>lines := Some 0\<rparr>))
   \<and> run_instructions ''f'' ''nn'' [] demo = Some (Return (- 1, [], demo\<lparr>lines := Some 2\<rparr>))
   \<and> run_instructions ''f'' ''hq'' [] demo = Some (Return (- 3, [], usage demo))"
proof -
  have h: "\<not> command (CHR ''x'') \<and> CHR ''x'' \<noteq> NL \<and> CHR ''x'' \<noteq> NUL"
    "deref [NL] = NL \<or> deref [NL] = NUL"
    "current_valid (demo\<lparr>lines := Some 2\<rparr>)
      \<and> (lines (demo\<lparr>lines := Some 2\<rparr>) = None \<or> current_next (demo\<lparr>lines := Some 2\<rparr>) = None)"
    "current_valid (demo\<lparr>lines := Some 0\<rparr>)
      \<and> (lines (demo\<lparr>lines := Some 0\<rparr>) = None \<or> current_prev (demo\<lparr>lines := Some 0\<rparr>) = None)"
    "NL \<notin> set ''xn'' \<and> NUL \<notin> set ''xn''"
    by (simp_all add: command_def deref_def current_valid_def current_next_def current_prev_def)
  have k: "current_valid demo \<and> lines demo \<noteq> None" "current_next demo = Some 2"
    "current_prev demo = Some 0"
    by (simp_all add: current_valid_def current_next_def current_prev_def)
  note a = interpreter_scan [of "CHR ''x''" "''f''" "''q''" "[]" demo "[NL]" "''xn''"]
  note b = interpreter_scan [of "CHR ''x''" "''f''" "''d''" "[]" "demo\<lparr>lines := Some 2\<rparr>" "[NL]" "''xn''"]
  note c = interpreter_scan [of "CHR ''x''" "''f''" "''d''" "[]" "demo\<lparr>lines := Some 0\<rparr>" "[NL]" "''xn''"]
  note d = interpreter_scan [of "CHR ''x''" "''f''" "''nd''" "[]" demo "[NL]" "''xn''"]
  note e = interpreter_scan [of "CHR ''x''" "''f''" "''d''" "[]" demo "[NL]" "''xn''"]
  note f = interpreter_scan [of "CHR ''x''" "''f''" "''n''" "[]" demo "[NL]" "''xn''"]
  note g = interpreter_scan [of "CHR ''x''" "''f''" "[]" "[]" "demo\<lparr>lines := Some 2\<rparr>" "[NL]" "''xn''"]
  note q2 = interpreter_scan [of "CHR ''x''" "''f''" "[]" "[]" "demo\<lparr>lines := Some 2\<rparr>" "[NL]" "''xn''"]
  note q0 = interpreter_scan [of "CHR ''x''" "''f''" "[]" "[]" "demo\<lparr>lines := Some 0\<rparr>" "[NL]" "''xn''"]
  note qu = interpreter_scan [of "CHR ''x''" "''f''" "[]" "[]" "usage demo" "[NL]" "''xn''"]
  have 1: "run_instructions ''f'' ''xq'' [] demo = run_instructions ''f'' ''q'' [] demo"
    using a h(1) by blast
  have 2: "run_instructions ''f'' [NL] [] demo = Some (Return (0, [], demo))"
    using a h(2) by blast
  have 3: "run_instructions ''f'' ''qd'' [] demo = Some (Return (- 3, [], demo))"
    using e by blast
  have 4: "run_instructions ''f'' ''nd'' [] (demo\<lparr>lines := Some 2\<rparr>)
        = Some (Return (- 1, [], demo\<lparr>lines := Some 2\<rparr>))"
    using b h(3) by blast
  have 5: "run_instructions ''f'' ''bd'' [] (demo\<lparr>lines := Some 0\<rparr>)
        = Some (Return (- 2, [], demo\<lparr>lines := Some 0\<rparr>))"
    using c h(4) by blast
  have 6: "run_instructions ''f'' (''xn'' @ ''nd'') [] demo
        = obind (run_instructions ''f'' ''xn'' [] demo) (and_then ''f'' ''nd'')"
    using d h(5) by blast
  have "run_instructions ''f'' ''nq'' [] demo
      = run_instructions ''f'' ''q'' [] (demo\<lparr>lines := current_next demo\<rparr>)"
    using a k by blast
  also have "\<dots> = Some (Return (- 3, [], demo\<lparr>lines := Some 2\<rparr>))"
    unfolding k(2) using q2 by blast
  finally have 7: "run_instructions ''f'' ''nq'' [] demo
      = Some (Return (- 3, [], demo\<lparr>lines := Some 2\<rparr>))" .
  have "run_instructions ''f'' ''bq'' [] demo
      = run_instructions ''f'' ''q'' [] (demo\<lparr>lines := current_prev demo\<rparr>)"
    using a k by blast
  also have "\<dots> = Some (Return (- 3, [], demo\<lparr>lines := Some 0\<rparr>))"
    unfolding k(3) using q0 by blast
  finally have 8: "run_instructions ''f'' ''bq'' [] demo
      = Some (Return (- 3, [], demo\<lparr>lines := Some 0\<rparr>))" .
  have "run_instructions ''f'' ''nn'' [] demo
      = run_instructions ''f'' ''n'' [] (demo\<lparr>lines := current_next demo\<rparr>)"
    using f k by blast
  also have "\<dots> = Some (Return (- 1, [], demo\<lparr>lines := Some 2\<rparr>))"
    unfolding k(2) using g h(3) by blast
  finally have 9: "run_instructions ''f'' ''nn'' [] demo
      = Some (Return (- 1, [], demo\<lparr>lines := Some 2\<rparr>))" .
  have "run_instructions ''f'' ''hq'' [] demo = run_instructions ''f'' ''q'' [] (usage demo)"
    using a by blast
  also have "\<dots> = Some (Return (- 3, [], usage demo))"
    using qu by blast
  finally have 10: "run_instructions ''f'' ''hq'' [] demo = Some (Return (- 3, [], usage demo))" .
  from h k 1 2 3 4 5 6 7 8 9 10 show ?thesis
    by - (elim conjE, intro conjI, assumption+)
qed

section \<open>Paths\<close>

lemma rbind_Return_iff:
  "rbind m f = Return y \<longleftrightarrow> (\<exists>x. m = Return x \<and> f x = Return y)"
  by (simp add: rbind_def split: result.splits)

lemma path_append:
  "path nx p (as @ bs) q \<longleftrightarrow> (\<exists>m. path nx p as m \<and> path nx m bs q)"
  by (induction as arbitrary: p) (auto split: option.splits)

lemma path_cong:
  "(\<And>a. a \<in> set as \<Longrightarrow> nx' a = nx a) \<Longrightarrow> path nx' p as q = path nx p as q"
  by (induction as arbitrary: p) (auto split: option.splits)

lemma path_unique:
  "path nx p as None \<Longrightarrow> path nx p bs None \<Longrightarrow> as = bs"
proof (induction as arbitrary: p bs)
  case Nil
  then show ?case by (cases bs) auto
next
  case (Cons a as)
  then show ?case by (cases bs) (auto split: option.splits)
qed

lemma path_hd_notin_tl:
  assumes "path nx (Some a) (a # as) None"
  shows "a \<notin> set as"
proof
  assume "a \<in> set as"
  then obtain xs ys where as: "as = xs @ a # ys"
    by (auto simp: in_set_conv_decomp)
  from assms obtain p' where nx: "nx a = Some p'" and rest: "path nx p' (xs @ a # ys) None"
    by (auto simp: as split: option.splits)
  from rest obtain m where "path nx p' xs m" and tl: "path nx m (a # ys) None"
    by (auto simp: path_append)
  from tl nx have "path nx p' ys None"
    by auto
  with rest have "xs @ a # ys = ys"
    by (rule path_unique)
  then show False
    by (auto dest: arg_cong [where f = length])
qed

lemma path_distinct:
  "path nx p as None \<Longrightarrow> distinct as"
proof (induction as arbitrary: p)
  case Nil
  then show ?case by simp
next
  case (Cons a as)
  then have "a \<notin> set as"
    using path_hd_notin_tl [of nx a as] by simp
  moreover from Cons have "distinct as"
    by (auto split: option.splits)
  ultimately show ?case by simp
qed

lemma path_char_seg:
  "path (char_next w) p as q \<Longrightarrow> char_seg (char_heap w) p (chars_at w as) q"
  by (induction as arbitrary: p) (auto simp: chars_at_def char_next_def split: option.splits)

lemma char_seg_path:
  "char_seg (char_heap w) p cs q \<Longrightarrow> \<exists>as. path (char_next w) p as q \<and> chars_at w as = cs"
proof (induction cs arbitrary: p)
  case Nil
  then show ?case
    by (auto simp: chars_at_def intro: exI [of _ "[]"])
next
  case (Cons x cs)
  then obtain a nd where p: "p = Some a" and nd: "char_heap w a = Some nd" "c_val nd = x"
    and rest: "char_seg (char_heap w) (c_next nd) cs q"
    by (auto split: option.splits)
  from Cons.IH [OF rest] obtain as where "path (char_next w) (c_next nd) as q" "chars_at w as = cs"
    by blast
  with p nd have "path (char_next w) p (a # as) q \<and> chars_at w (a # as) = x # cs"
    by (simp add: char_next_def chars_at_def)
  then show ?case by blast
qed

lemma chars_at_cong:
  "(\<And>a. a \<in> set as \<Longrightarrow> char_heap w' a = char_heap w a) \<Longrightarrow> chars_at w' as = chars_at w as"
  by (simp add: chars_at_def)

lemma char_path_cong:
  "(\<And>a. a \<in> set as \<Longrightarrow> char_heap w' a = char_heap w a) \<Longrightarrow>
   path (char_next w') p as q = path (char_next w) p as q"
  by (rule path_cong) (simp add: char_next_def)

section \<open>Nodes of pointer size\<close>

lemma MALLOC_Return:
  "MALLOC w = Return w0 \<Longrightarrow> w0 = w\<lparr>malloc_null := malloc_null w0\<rparr>"
  by (auto simp: MALLOC_def split: list.splits if_splits)

lemma MALLOC_fields:
  assumes "MALLOC w = Return w0"
  shows "char_heap w0 = char_heap w" "line_heap w0 = line_heap w" "char_block w0 = char_block w"
    "line_block w0 = line_block w" "brk w0 = brk w" "start w0 = start w" "lines w0 = lines w"
    "stop_insertion w0 = stop_insertion w" "sigint w0 = sigint w" "stdout w0 = stdout w"
    "stderr w0 = stderr w" "files w0 = files w" "fresh_char w0 = fresh_char w"
    "fresh_line w0 = fresh_line w" "fresh_byte w0 = fresh_byte w"
  using assms by (auto simp: MALLOC_def split: list.splits if_splits)

lemma MALLOC_cases:
  obtains "MALLOC w = Exit_failure" | w0 where "MALLOC w = Return w0" "w0 = w\<lparr>malloc_null := malloc_null w0\<rparr>"
  by (cases "MALLOC w") (auto dest: MALLOC_Return simp: MALLOC_def split: list.splits if_splits)

lemma ALLOC_LL_character_cases:
  obtains "ALLOC_LL_character w = Exit_failure"
  | w1 where "ALLOC_LL_character w = Return (Some (brk w), w1)" "char_heap w1 (brk w) = None"
      "\<exists>x. char_block w1 (brk w) = Some x"
proof (cases w rule: MALLOC_cases)
  case 1
  then have "ALLOC_LL_character w = Exit_failure"
    by (simp add: ALLOC_LL_character_def)
  then show ?thesis by (rule that(1))
next
  case (2 w0)
  from 2(1) have b: "brk w0 = brk w"
    by (simp add: MALLOC_fields)
  show ?thesis
    by (rule that(2) [of "w0\<lparr>char_heap := (char_heap w0)(brk w0 := None),
          char_block := (char_block w0)(brk w0 \<mapsto> c_val (fresh_char w0 (brk w0))),
          brk := Suc (brk w0)\<rparr>"])
      (simp_all add: ALLOC_LL_character_def 2(1) b)
qed


lemma APPEND_LL_character_block:
  assumes "char_heap w a = None"
  shows "APPEND_LL_character (Some a) w = Fault \<or> APPEND_LL_character (Some a) w = Exit_failure"
proof (cases w rule: MALLOC_cases)
  case 1
  then show ?thesis
    by (simp add: APPEND_LL_character_def ALLOC_LL_character_def)
next
  case (2 w0)
  with assms have "APPEND_LL_character (Some a) w = Fault"
    by (simp add: APPEND_LL_character_def ALLOC_LL_character_def set_char_def MALLOC_fields)
  then show ?thesis ..
qed

lemma set_c_char_heap:
  "set_c p x w = Return w1 \<Longrightarrow> char_heap w a = None \<Longrightarrow> char_heap w1 a = None"
  by (auto simp: set_c_def split: option.splits)

lemma charray_loop_block:
  assumes "char_heap w a = None"
  shows "charray_loop src (Some a) w = Fault \<or> charray_loop src (Some a) w = Exit_failure
       \<or> charray_loop src (Some a) w = Return (src, Some a, w)"
proof (cases src)
  case Nil
  then show ?thesis by simp
next
  case (Cons x t)
  show ?thesis
  proof (cases "x \<noteq> NL \<and> x \<noteq> NUL")
    case False
    with Cons show ?thesis by auto
  next
    case True
    show ?thesis
    proof (cases "set_c (Some a) x w")
      case (Return w1)
      from Return assms have "char_heap w1 a = None"
        by (rule set_c_char_heap)
      from APPEND_LL_character_block [OF this] Return True Cons show ?thesis
        by auto
    qed (use True Cons in auto)
  qed
qed

lemma charray_finish_block:
  assumes "char_heap w a = None"
  shows "charray_finish src (Some a) w = Fault"
proof (cases "deref src = NL \<or> deref src = NUL")
  case False
  with assms show ?thesis
    by (simp add: charray_finish_def get_char_def)
next
  case True
  show ?thesis
  proof (cases "set_c (Some a) SPACE w")
    case (Return w1)
    from Return assms have "char_heap w1 a = None"
      by (rule set_c_char_heap)
    with Return True show ?thesis
      by (simp add: charray_finish_def set_char_def)
  next
    case Exit_failure
    then show ?thesis
      by (simp add: set_c_def split: option.splits)
  next
    case Fault
    with True show ?thesis
      by (simp add: charray_finish_def)
  qed
qed

lemma charray_to_line_block:
  "charray_to_line dest src w = Fault \<or> charray_to_line dest src w = Exit_failure"
proof (cases w rule: ALLOC_LL_character_cases)
  case 1
  then show ?thesis
    by (simp add: charray_to_line_def)
next
  case (2 w1)
  from charray_loop_block [OF 2(2), of src] charray_finish_block [OF 2(2), of src]
  show ?thesis
    by (auto simp: charray_to_line_def 2(1))
qed

lemma charray_loop_stops:
  "charray_loop src idx w = Return (src', idx', w') \<Longrightarrow> deref src' = NL \<or> deref src' = NUL"
proof (induction src arbitrary: idx w)
  case Nil
  then show ?case by (simp add: deref_def)
next
  case (Cons x src)
  show ?case
  proof (cases "x \<noteq> NL \<and> x \<noteq> NUL")
    case True
    with Cons.prems have "\<exists>w2 (nd :: character). charray_loop src (c_next nd) w2 = Return (src', idx', w')"
      by (auto simp: rbind_Return_iff)
    then obtain w2 and nd :: character
      where "charray_loop src (c_next nd) w2 = Return (src', idx', w')"
      by blast
    then show ?thesis by (rule Cons.IH)
  next
    case False
    with Cons.prems show ?thesis by (auto simp: deref_def)
  qed
qed

lemma demo_alloc_simps [simp]:
  "malloc_null demo = []" "char_heap demo 9 = None" "char_block demo = Map.empty"
  "line_block demo = Map.empty"
  by (simp_all add: demo_def init_state_def)

lemma charray_to_line_demo: "charray_to_line dest ''ab'' demo = Fault"
  by (simp add: charray_to_line_def ALLOC_LL_character_def MALLOC_def set_c_def
      APPEND_LL_character_def set_char_def)

lemma char_path_Cons:
  "path (char_next w) p (a # as) q \<longleftrightarrow>
     p = Some a \<and> (\<exists>nd. char_heap w a = Some nd \<and> path (char_next w) (c_next nd) as q)"
  by (auto simp: char_next_def split: option.splits)

section \<open>Linking and unlinking on paths\<close>

lemma first_ptr_simps [simp]:
  "first_ptr [] = None" "first_ptr (a # as) = Some a"
  "as \<noteq> [] \<Longrightarrow> first_ptr (as @ bs) = first_ptr as"
  "first_ptr ([] @ bs) = first_ptr bs"
  by (simp_all add: first_ptr_def split: list.splits)

lemma last_ptr_eq: "last_ptr as = (if as = [] then None else Some (last as))"
  by (cases as rule: rev_cases) (simp_all add: last_ptr_def first_ptr_def)

lemma last_ptr_simps [simp]:
  "last_ptr [] = None" "last_ptr (as @ [a]) = Some a"
  "bs \<noteq> [] \<Longrightarrow> last_ptr (as @ bs) = last_ptr bs"
  "last_ptr (a # b # bs) = last_ptr (b # bs)" "last_ptr [a] = Some a"
  by (simp_all add: last_ptr_eq)

lemma first_ptr_None [simp]: "first_ptr as = None \<longleftrightarrow> as = []"
  by (cases as) simp_all

lemma last_ptr_None [simp]: "last_ptr as = None \<longleftrightarrow> as = []"
  by (simp add: last_ptr_eq)

lemma first_ptr_Some: "first_ptr as = Some a \<longleftrightarrow> (\<exists>bs. as = a # bs)"
  by (cases as) auto

lemma last_ptr_Some: "last_ptr as = Some a \<longleftrightarrow> (\<exists>bs. as = bs @ [a])"
  by (cases as rule: rev_cases) auto

lemma path_first_ptr: "path nx p as None \<Longrightarrow> p = first_ptr as"
  by (cases as) auto

lemma path_mid:
  "path nx p (xs @ a # ys) None \<longleftrightarrow>
     path nx p xs (Some a) \<and> (\<exists>m. nx a = Some m \<and> path nx m ys None)"
  by (auto simp: path_append split: option.splits)

lemma path_snoc:
  "path nx p (us @ [z]) q \<longleftrightarrow> path nx p us (Some z) \<and> nx z = Some q"
  by (auto simp: path_append split: option.splits)

lemma path_unlink:
  assumes p: "path nx p (xs @ a # ys) None"
    and a: "nx a = Some m"
    and keep: "\<And>x. x \<in> set (butlast xs) \<union> set ys \<Longrightarrow> nx' x = nx x"
    and lnk: "xs \<noteq> [] \<Longrightarrow> nx' (last xs) = Some m"
  shows "path nx' (first_ptr (xs @ ys)) (xs @ ys) None"
proof -
  from p a have px: "path nx p xs (Some a)" and py: "path nx m ys None"
    by (auto simp: path_mid)
  have py': "path nx' m ys None"
    using py keep by (subst path_cong [of ys nx' nx]) auto
  have "\<exists>q. path nx' q (xs @ ys) None"
  proof (cases xs rule: rev_cases)
    case Nil
    with py' show ?thesis by auto
  next
    case (snoc us z)
    with px have "path nx p us (Some z)"
      by (simp add: path_snoc)
    then have "path nx' p us (Some z)"
      using keep snoc by (subst path_cong [of us nx' nx]) auto
    moreover have "nx' z = Some m"
      using lnk snoc by simp
    ultimately have "path nx' p (us @ [z]) m"
      by (simp add: path_snoc)
    with py' have "path nx' p ((us @ [z]) @ ys) None"
      unfolding path_append by blast
    with snoc show ?thesis
      by blast
  qed
  then show ?thesis
    by (auto dest: path_first_ptr)
qed

section \<open>Doubly linked lines\<close>

lemma dll_distinct: "dll w as \<Longrightarrow> distinct as"
  by (auto simp: dll_def dest: path_distinct)

lemma dll_Nil [simp]: "dll w []"
  by (simp add: dll_def)

lemma dll_mid:
  assumes "dll w (xs @ a # ys)"
  shows "\<exists>ln. line_heap w a = Some ln \<and> l_next ln = first_ptr ys \<and> l_prev ln = last_ptr xs"
proof -
  from assms obtain m where "line_next w a = Some m" "path (line_next w) m ys None"
    by (auto simp: dll_def path_mid)
  then have n: "line_next w a = Some (first_ptr ys)"
    by (auto dest: path_first_ptr)
  from assms have "path (line_prev w) (last_ptr (xs @ a # ys)) (rev ys @ a # rev xs) None"
    by (simp add: dll_def)
  then obtain m' where "line_prev w a = Some m'" "path (line_prev w) m' (rev xs) None"
    by (auto simp: path_mid)
  then have "line_prev w a = Some (last_ptr xs)"
    by (auto dest: path_first_ptr simp: last_ptr_def)
  with n show ?thesis
    by (auto simp: line_next_def line_prev_def)
qed

lemma dll_unlink:
  assumes d: "dll w (xs @ a # ys)"
    and N1: "\<And>x. x \<in> set (butlast xs) \<union> set ys \<Longrightarrow> line_next w' x = line_next w x"
    and N2: "xs \<noteq> [] \<Longrightarrow> line_next w' (last xs) = line_next w a"
    and P1: "\<And>x. x \<in> set xs \<union> set (tl ys) \<Longrightarrow> line_prev w' x = line_prev w x"
    and P2: "ys \<noteq> [] \<Longrightarrow> line_prev w' (hd ys) = line_prev w a"
  shows "dll w' (xs @ ys)"
proof -
  from d obtain m where m: "line_next w a = Some m"
    by (auto simp: dll_def path_mid)
  from d have f: "path (line_next w) (first_ptr (xs @ a # ys)) (xs @ a # ys) None"
    by (simp add: dll_def)
  have 1: "path (line_next w') (first_ptr (xs @ ys)) (xs @ ys) None"
    using N1 N2 by (intro path_unlink [OF f m]) (simp_all add: m)
  from d have b: "path (line_prev w) (last_ptr (xs @ a # ys)) (rev ys @ a # rev xs) None"
    by (simp add: dll_def)
  then obtain m' where m': "line_prev w a = Some m'"
    by (auto simp: path_mid)
  have "path (line_prev w') (first_ptr (rev ys @ rev xs)) (rev ys @ rev xs) None"
  proof (rule path_unlink [OF b m'])
    fix x assume "x \<in> set (butlast (rev ys)) \<union> set (rev xs)"
    then have "x \<in> set xs \<union> set (tl ys)"
      by (cases ys) (auto simp: butlast_append)
    then show "line_prev w' x = line_prev w x"
      by (rule P1)
  next
    assume "rev ys \<noteq> []"
    then show "line_prev w' (last (rev ys)) = Some m'"
      using P2 m' by (simp add: last_rev)
  qed
  then have 2: "path (line_prev w') (last_ptr (xs @ ys)) (rev (xs @ ys)) None"
    by (simp add: last_ptr_def)
  from 1 2 show ?thesis
    by (simp add: dll_def)
qed

section \<open>Deleting a line\<close>

lemma destroy_chars_frame:
  assumes "destroy_chars p w = Some (Return w')"
  shows "w' = w\<lparr>char_heap := char_heap w'\<rparr>"
proof -
  have "\<forall>v. Return w' = Return v \<longrightarrow> v = w\<lparr>char_heap := char_heap v\<rparr>"
  proof (rule destroy_chars.raw_induct
      [where P = "\<lambda>p w r. \<forall>v. r = Return v \<longrightarrow> v = w\<lparr>char_heap := char_heap v\<rparr>", OF _ assms])
    fix f chars and w :: state and r
    assume IH: "\<And>chars w y. f chars w = Some y \<Longrightarrow>
        \<forall>v. y = Return v \<longrightarrow> v = w\<lparr>char_heap := char_heap v\<rparr>"
      and step: "(case chars of None \<Rightarrow> Some (Return w)
           | Some a \<Rightarrow> (case char_heap w a of None \<Rightarrow> Some Fault
               | Some nd \<Rightarrow> f (c_next nd) (w\<lparr>char_heap := (char_heap w)(a := None)\<rparr>))) = Some r"
    show "\<forall>v. r = Return v \<longrightarrow> v = w\<lparr>char_heap := char_heap v\<rparr>"
    proof (intro allI impI)
      fix v assume r: "r = Return v"
      show "v = w\<lparr>char_heap := char_heap v\<rparr>"
      proof (cases chars)
        case None
        with step r show ?thesis by auto
      next
        case (Some a)
        with step r obtain nd :: character where
          "f (c_next nd) (w\<lparr>char_heap := (char_heap w)(a := None)\<rparr>) = Some (Return v)"
          by (auto split: option.splits)
        from IH [OF this] have "v = w\<lparr>char_heap := (char_heap w)(a := None)\<rparr>\<lparr>char_heap := char_heap v\<rparr>"
          by simp
        then show ?thesis by simp
      qed
    qed
  qed
  then show ?thesis by simp
qed

lemma destroy_chars_path:
  "path (char_next w) p as None \<Longrightarrow>
   destroy_chars p w
     = Some (Return (w\<lparr>char_heap := (\<lambda>x. if x \<in> set as then None else char_heap w x)\<rparr>))"
proof (induction as arbitrary: p w)
  case Nil
  then show ?case by (simp add: destroy_chars.simps)
next
  case (Cons a as)
  then obtain nd where p: "p = Some a" and nd: "char_heap w a = Some nd"
    and rest: "path (char_next w) (c_next nd) as None"
    unfolding char_path_Cons by blast
  from Cons.prems have "path (char_next w) (Some a) (a # as) None"
    unfolding p .
  then have "a \<notin> set as"
    by (rule path_hd_notin_tl)
  define w1 where "w1 = w\<lparr>char_heap := (char_heap w)(a := None)\<rparr>"
  have "path (char_next w1) (c_next nd) as None = path (char_next w) (c_next nd) as None"
    using \<open>a \<notin> set as\<close> by (intro char_path_cong) (auto simp: w1_def)
  with rest have "path (char_next w1) (c_next nd) as None"
    by simp
  from Cons.IH [OF this]
  have "destroy_chars (c_next nd) w1
      = Some (Return (w1\<lparr>char_heap := (\<lambda>x. if x \<in> set as then None else char_heap w1 x)\<rparr>))" .
  moreover have "(\<lambda>x. if x \<in> set as then None else char_heap w1 x)
      = (\<lambda>x. if x \<in> set (a # as) then None else char_heap w x)"
    by (auto simp: w1_def)
  moreover have "destroy_chars p w = destroy_chars (c_next nd) w1"
    using p nd by (subst destroy_chars.simps) (simp add: w1_def)
  ultimately show ?case
    by (simp add: w1_def)
qed

lemma destroy_line_eval:
  assumes "line_heap w a = Some ln"
  shows "destroy_line (Some a) w
     = obind (destroy_chars (l_data ln) w)
         (\<lambda>w1. Some (Return (w1\<lparr>line_heap := (line_heap w1)(a := None)\<rparr>)))"
proof -
  have "obind (destroy_chars (l_data ln) w) (\<lambda>w1. Some (free_line (Some a) w1))
      = obind (destroy_chars (l_data ln) w)
          (\<lambda>w1. Some (Return (w1\<lparr>line_heap := (line_heap w1)(a := None)\<rparr>)))"
  proof (rule obind_cong)
    fix w1 assume "destroy_chars (l_data ln) w = Some (Return w1)"
    then have "w1 = w\<lparr>char_heap := char_heap w1\<rparr>"
      by (rule destroy_chars_frame)
    then have "line_heap w1 = line_heap w"
      by (metis state.select_convs(2) state.surjective state.update_convs(1))
    with assms show "Some (free_line (Some a) w1)
        = Some (Return (w1\<lparr>line_heap := (line_heap w1)(a := None)\<rparr>))"
      by (simp add: free_line_def)
  qed
  with assms show ?thesis
    by (simp add: destroy_line_def get_data_def)
qed

lemma delete_line_eval:
  assumes ln: "line_heap w a = Some ln"
    and nb: "l_next ln = None \<or> (\<exists>b lb. l_next ln = Some b \<and> b \<noteq> a \<and> line_heap w b = Some lb)"
    and pv: "l_prev ln = None \<or> (\<exists>z lz. l_prev ln = Some z \<and> z \<noteq> a \<and> line_heap w z = Some lz)"
    and ne: "l_next ln = None \<or> l_next ln \<noteq> l_prev ln"
  shows "delete_line (Some a) w
     = obind (destroy_chars (l_data ln)
                (w\<lparr>start := (if start w = Some a then l_next ln else start w),
                   line_heap := relink (line_heap w) ln\<rparr>))
         (\<lambda>w4. Some (Return (case l_prev ln of None \<Rightarrow> l_next ln | Some z \<Rightarrow> Some z,
                              w4\<lparr>line_heap := (line_heap w4)(a := None)\<rparr>)))"
proof -
  define s' where "s' = (if start w = Some a then l_next ln else start w)"
  have w1: "(if start w = Some a then w\<lparr>start := l_next ln\<rparr> else w) = w\<lparr>start := s'\<rparr>"
    by (simp add: s'_def)
  have ra: "relink (line_heap w) ln a = Some ln"
    using ln nb pv by (auto simp: relink_def)
  show ?thesis
  proof (cases "l_next ln")
    case None
    note n = None
    show ?thesis
    proof (cases "l_prev ln")
      case None
      have "relink (line_heap w) ln = line_heap w"
        using n None by (auto simp: relink_def)
      then show ?thesis
        using ln n None
        by (simp add: delete_line_def get_line_def w1 destroy_line_eval obind_assoc
            s'_def [symmetric])
    next
      case (Some z)
      with pv obtain lz where z: "z \<noteq> a" "line_heap w z = Some lz"
        by auto
      have "relink (line_heap w) ln = (line_heap w)(z \<mapsto> lz\<lparr>l_next := None\<rparr>)"
        using n Some z by (auto simp: relink_def)
      then show ?thesis
        using ln n Some z
        by (simp add: delete_line_def get_line_def set_line_def w1 destroy_line_eval obind_assoc
            s'_def [symmetric])
    qed
  next
    case (Some b)
    note n = Some
    with nb obtain lb where b: "b \<noteq> a" "line_heap w b = Some lb"
      by auto
    show ?thesis
    proof (cases "l_prev ln")
      case None
      have "relink (line_heap w) ln = (line_heap w)(b \<mapsto> lb\<lparr>l_prev := None\<rparr>)"
        using n None b by (auto simp: relink_def)
      then show ?thesis
        using ln n None b
        by (simp add: delete_line_def get_line_def set_line_def w1 destroy_line_eval obind_assoc
            s'_def [symmetric])
    next
      case (Some z)
      with pv obtain lz where z: "z \<noteq> a" "line_heap w z = Some lz"
        by auto
      from ne n Some have zb: "z \<noteq> b"
        by auto
      have "relink (line_heap w) ln
          = (line_heap w)(b \<mapsto> lb\<lparr>l_prev := Some z\<rparr>, z \<mapsto> lz\<lparr>l_next := Some b\<rparr>)"
        using n Some b z zb by (auto simp: relink_def)
      then show ?thesis
        using ln n Some b z zb
        by (simp add: delete_line_def get_line_def set_line_def w1 destroy_line_eval obind_assoc
            s'_def [symmetric])
    qed
  qed
qed

lemma first_ptr_mem:
  "first_ptr as = Some a \<Longrightarrow> a \<in> set as" "Some a = first_ptr as \<Longrightarrow> a \<in> set as"
  by (cases as; auto)+

lemma dll_allocated:
  assumes "dll w as" "x \<in> set as"
  shows "\<exists>l. line_heap w x = Some l"
proof -
  from assms(2) obtain xs ys where "as = xs @ x # ys"
    by (auto simp: in_set_conv_decomp)
  with assms(1) dll_mid [of w xs x ys] show ?thesis
    by auto
qed

lemma dll_relink:
  assumes d: "dll w (xs @ a # ys)"
    and ln: "line_heap w a = Some ln"
    and h': "line_heap w' = (relink (line_heap w) ln)(a := None)"
  shows "dll w' (xs @ ys)"
proof -
  from d have dist: "distinct (xs @ a # ys)"
    by (rule dll_distinct)
  from dll_mid [OF d] ln have nx: "l_next ln = first_ptr ys" and pv: "l_prev ln = last_ptr xs"
    by auto
  have alloc: "\<And>x. x \<in> set xs \<union> set ys \<Longrightarrow> \<exists>l. line_heap w x = Some l"
    using dll_allocated [OF d] by auto
  show ?thesis
  proof (rule dll_unlink [OF d])
    fix x assume x: "x \<in> set (butlast xs) \<union> set ys"
    have nl: "last xs \<notin> set (butlast xs) \<union> set ys" if "xs \<noteq> []"
    proof -
      from that have "xs = butlast xs @ [last xs]"
        by simp
      with dist have "distinct (butlast xs @ [last xs])"
        by (metis distinct_append)
      moreover from that dist have "last xs \<notin> set ys"
        by (auto dest: last_in_set)
      ultimately show ?thesis
        by simp
    qed
    from x dist have "x \<noteq> a"
      by (auto dest: in_set_butlastD)
    moreover from x nl have "Some x \<noteq> last_ptr xs"
      by (auto simp: last_ptr_eq)
    ultimately have "x \<noteq> a" "Some x \<noteq> last_ptr xs" .
    then show "line_next w' x = line_next w x"
      by (cases "line_heap w x") (simp_all add: line_next_def h' relink_def pv)
  next
    assume ne: "xs \<noteq> []"
    then have z: "last xs \<in> set xs"
      by simp
    with dist have "last xs \<noteq> a" "Some (last xs) \<noteq> first_ptr ys"
      by (auto dest: first_ptr_mem)
    moreover from alloc z obtain lz where "line_heap w (last xs) = Some lz"
      by blast
    ultimately show "line_next w' (last xs) = line_next w a"
      using ne ln by (simp add: line_next_def h' relink_def nx pv last_ptr_eq)
  next
    fix x assume x: "x \<in> set xs \<union> set (tl ys)"
    then have "x \<noteq> a" "Some x \<noteq> first_ptr ys"
      using dist by (cases ys; auto)+
    then show "line_prev w' x = line_prev w x"
      by (cases "line_heap w x") (simp_all add: line_prev_def h' relink_def nx)
  next
    assume ne: "ys \<noteq> []"
    then have b: "hd ys \<in> set ys" "first_ptr ys = Some (hd ys)"
      by (cases ys; simp)+
    with dist have "hd ys \<noteq> a"
      by auto
    moreover from alloc b obtain lb where "line_heap w (hd ys) = Some lb"
      by blast
    ultimately show "line_prev w' (hd ys) = line_prev w a"
      using b ln by (simp add: line_prev_def h' relink_def nx)
  qed
qed

lemma delete_line_dll:
  assumes d: "dll w (xs @ a # ys)" and ln: "line_heap w a = Some ln"
  shows "delete_line (Some a) w
     = obind (destroy_chars (l_data ln)
                (w\<lparr>start := (if start w = Some a then l_next ln else start w),
                   line_heap := relink (line_heap w) ln\<rparr>))
         (\<lambda>w4. Some (Return (case l_prev ln of None \<Rightarrow> l_next ln | Some z \<Rightarrow> Some z,
                              w4\<lparr>line_heap := (line_heap w4)(a := None)\<rparr>)))"
proof (rule delete_line_eval [OF ln])
  from d have dist: "distinct (xs @ a # ys)"
    by (rule dll_distinct)
  from dll_mid [OF d] ln have nx: "l_next ln = first_ptr ys" and pv: "l_prev ln = last_ptr xs"
    by auto
  have alloc: "\<And>x. x \<in> set xs \<union> set ys \<Longrightarrow> \<exists>l. line_heap w x = Some l"
    using dll_allocated [OF d] by auto
  show "l_next ln = None \<or> (\<exists>b lb. l_next ln = Some b \<and> b \<noteq> a \<and> line_heap w b = Some lb)"
  proof (cases ys)
    case Nil
    then show ?thesis by (simp add: nx)
  next
    case (Cons b ys')
    with dist alloc [of b] show ?thesis by (auto simp: nx)
  qed
  show "l_prev ln = None \<or> (\<exists>z lz. l_prev ln = Some z \<and> z \<noteq> a \<and> line_heap w z = Some lz)"
  proof (cases xs rule: rev_cases)
    case Nil
    then show ?thesis by (simp add: pv)
  next
    case (snoc xs' z)
    with dist alloc [of z] show ?thesis by (auto simp: pv)
  qed
  show "l_next ln = None \<or> l_next ln \<noteq> l_prev ln"
  proof (cases ys)
    case Nil
    then show ?thesis by (simp add: nx)
  next
    case (Cons b ys')
    with dist show ?thesis
      by (cases xs rule: rev_cases) (auto simp: nx pv)
  qed
qed

lemma state_frame_char_heap:
  "w' = w\<lparr>char_heap := h\<rparr> \<Longrightarrow>
   line_heap w' = line_heap w \<and> start w' = start w \<and> lines w' = lines w \<and> brk w' = brk w"
  by simp

lemma delete_line_returns:
  assumes d: "dll w (xs @ a # ys)" and s: "start w = first_ptr (xs @ a # ys)"
    and r: "delete_line (Some a) w = Some (Return (ret, w'))"
  shows "dll w' (xs @ ys) \<and> start w' = first_ptr (xs @ ys) \<and> line_heap w' a = None
       \<and> ret = (case last_ptr xs of None \<Rightarrow> first_ptr ys | Some z \<Rightarrow> Some z)
       \<and> brk w' = brk w \<and> lines w' = lines w"
proof -
  from dll_mid [OF d] obtain ln where ln: "line_heap w a = Some ln"
    and nx: "l_next ln = first_ptr ys" and pv: "l_prev ln = last_ptr xs"
    by blast
  define w3 where "w3 = w\<lparr>start := (if start w = Some a then l_next ln else start w),
                   line_heap := relink (line_heap w) ln\<rparr>"
  from r obtain w4 where dc: "destroy_chars (l_data ln) w3 = Some (Return w4)"
    and ret: "ret = (case l_prev ln of None \<Rightarrow> l_next ln | Some z \<Rightarrow> Some z)"
    and w': "w' = w4\<lparr>line_heap := (line_heap w4)(a := None)\<rparr>"
    unfolding delete_line_dll [OF d ln] w3_def [symmetric] by (auto simp: obind_Return_iff)
  from destroy_chars_frame [OF dc] have "w4 = w3\<lparr>char_heap := char_heap w4\<rparr>" .
  from state_frame_char_heap [OF this]
  have f: "line_heap w4 = line_heap w3" "start w4 = start w3" "lines w4 = lines w3"
    "brk w4 = brk w3"
    by simp_all
  have lh: "line_heap w' = (relink (line_heap w) ln)(a := None)"
    by (simp add: w' f w3_def)
  from d ln lh have "dll w' (xs @ ys)"
    by (rule dll_relink)
  moreover have "start w' = first_ptr (xs @ ys)"
  proof (cases xs)
    case Nil
    with s show ?thesis by (simp add: w' f w3_def nx)
  next
    case (Cons x xs')
    with dll_distinct [OF d] have "x \<noteq> a"
      by auto
    with Cons s show ?thesis by (simp add: w' f w3_def)
  qed
  moreover have "ret = (case last_ptr xs of None \<Rightarrow> first_ptr ys | Some z \<Rightarrow> Some z)"
    by (simp add: ret nx pv split: option.splits)
  ultimately show ?thesis
    by (simp add: lh w' f w3_def)
qed

lemma delete_line_chain:
  assumes d: "dll w (xs @ a # ys)" and ln: "line_heap w a = Some ln"
    and c: "chain w (l_data ln) cs"
  shows "\<exists>ret w'. delete_line (Some a) w = Some (Return (ret, w'))"
proof -
  define w3 where "w3 = w\<lparr>start := (if start w = Some a then l_next ln else start w),
                   line_heap := relink (line_heap w) ln\<rparr>"
  from c obtain cas where "path (char_next w) (l_data ln) cas None"
    unfolding chain_def by (blast dest: char_seg_path)
  moreover have "path (char_next w3) (l_data ln) cas None = path (char_next w) (l_data ln) cas None"
    by (rule char_path_cong) (simp add: w3_def)
  ultimately have "path (char_next w3) (l_data ln) cas None"
    by simp
  from destroy_chars_path [OF this] show ?thesis
    unfolding delete_line_dll [OF d ln] w3_def [symmetric] by simp
qed

lemma dll_demo: "dll demo [0, 1, 2]"
  by (simp add: dll_def line_next_def line_prev_def last_ptr_def)

lemma chain_demo: "chain demo (Some 5) [CHR ''b'', SPACE]"
  by (simp add: chain_def demo_def init_state_def)

section \<open>Claims about deletion\<close>

text \<open>
  C1, as the code has it. Deleting the line at \<open>a\<close> of a buffer \<open>xs @ a # ys\<close>
  whose chain of characters is well formed returns; the line is freed, the
  lines \<open>xs @ ys\<close> are doubly linked (so the former neighbours point to each
  other), \<open>start\<close> is the first of them (the next of the deleted line when the
  deleted line was \<open>start\<close>), and the pointer returned is the previous line of
  the deleted one when it has one, else its next line, else \<^verbatim>\<open>NULL\<close>. Deleting
  at \<^verbatim>\<open>NULL\<close> returns \<^verbatim>\<open>NULL\<close> and changes nothing.
\<close>

theorem delete_line_unlinks:
  assumes "dll w (xs @ a # ys)" and "start w = first_ptr (xs @ a # ys)"
    and "line_heap w a = Some ln" and "chain w (l_data ln) cs"
  shows "(\<exists>w'. delete_line (Some a) w
              = Some (Return (case l_prev ln of None \<Rightarrow> l_next ln | Some z \<Rightarrow> Some z, w'))
            \<and> line_heap w' a = None \<and> dll w' (xs @ ys) \<and> start w' = first_ptr (xs @ ys)
            \<and> (start w = Some a \<longrightarrow> start w' = l_next ln))
       \<and> l_prev ln = last_ptr xs \<and> l_next ln = first_ptr ys
       \<and> delete_line None w = Some (Return (None, w))"
proof -
  from dll_mid [OF assms(1)] assms(3)
  have nx: "l_next ln = first_ptr ys" and pv: "l_prev ln = last_ptr xs"
    by auto
  from delete_line_chain [OF assms(1,3,4)] obtain ret w'
    where r: "delete_line (Some a) w = Some (Return (ret, w'))"
    by blast
  from delete_line_returns [OF assms(1,2) r]
  have p: "dll w' (xs @ ys)" "start w' = first_ptr (xs @ ys)" "line_heap w' a = None"
    "ret = (case last_ptr xs of None \<Rightarrow> first_ptr ys | Some z \<Rightarrow> Some z)"
    by simp_all
  have "start w = Some a \<longrightarrow> start w' = l_next ln"
  proof
    assume "start w = Some a"
    with assms(2) dll_distinct [OF assms(1)] have "xs = []"
      by (cases xs) auto
    with p(2) nx show "start w' = l_next ln"
      by simp
  qed
  moreover have "delete_line None w = Some (Return (None, w))"
    by (simp add: delete_line_def)
  moreover have "ret = (case l_prev ln of None \<Rightarrow> l_next ln | Some z \<Rightarrow> Some z)"
    using p(4) by (simp add: nx pv split: option.splits)
  ultimately show ?thesis
    using r p(1,2,3) nx pv by blast
qed

theorem delete_line_unlinks_witness:
  "dll demo ([0] @ 1 # [2]) \<and> start demo = first_ptr ([0] @ 1 # [2])
   \<and> line_heap demo 1 = Some \<lparr>l_data = Some 5, l_next = Some 2, l_prev = Some 0\<rparr>
   \<and> chain demo (l_data \<lparr>l_data = Some 5, l_next = Some 2, l_prev = Some 0\<rparr>) [CHR ''b'', SPACE]
   \<and> (\<exists>w'. delete_line (Some 1) demo = Some (Return (Some 0, w'))
            \<and> line_heap w' 1 = None \<and> dll w' ([0] @ [2]) \<and> start w' = first_ptr ([0] @ [2]))"
proof -
  have h: "dll demo ([0] @ 1 # [2])" "start demo = first_ptr ([0] @ 1 # [2])"
    "line_heap demo 1 = Some \<lparr>l_data = Some 5, l_next = Some 2, l_prev = Some 0\<rparr>"
    "chain demo (l_data \<lparr>l_data = Some 5, l_next = Some 2, l_prev = Some 0\<rparr>) [CHR ''b'', SPACE]"
    using dll_demo chain_demo by simp_all
  from delete_line_unlinks [OF h]
  have "\<exists>w'. delete_line (Some 1) demo = Some (Return (Some 0, w'))
            \<and> line_heap w' 1 = None \<and> dll w' ([0] @ [2]) \<and> start w' = first_ptr ([0] @ [2])"
    by auto
  with h show ?thesis
    by - (intro conjI, assumption+)
qed

text \<open>
  C1 as stated fails on a line that has both neighbours: \<^verbatim>\<open>ret\<close> is first set
  to the next line and then overwritten with the previous one, so deleting
  the second of three lines leaves the cursor on the first, not on the third.
\<close>

theorem delete_line_counterexample:
  "lines demo = Some 1 \<and> current_next demo = Some 2 \<and> current_prev demo = Some 0
   \<and> returned (delete_line (lines demo) demo) = Some (Some 0)
   \<and> returned (delete_line (lines demo) demo) \<noteq> Some (current_next demo)"
proof -
  have ln: "line_heap demo 1 = Some \<lparr>l_data = Some 5, l_next = Some 2, l_prev = Some 0\<rparr>"
    by simp
  have d: "dll demo ([0] @ 1 # [2])"
    using dll_demo by simp
  have c: "chain demo (l_data \<lparr>l_data = Some 5, l_next = Some 2, l_prev = Some 0\<rparr>)
      [CHR ''b'', SPACE]"
    using chain_demo by simp
  from delete_line_chain [OF d ln c] obtain ret w'
    where r: "delete_line (Some 1) demo = Some (Return (ret, w'))"
    by blast
  from delete_line_returns [OF d _ r] have "ret = Some 0"
    by simp
  with r show ?thesis
    by (simp add: returned_def current_next_def current_prev_def)
qed

section \<open>An insertion session\<close>

lemma read_stop_insertion_fields:
  assumes "read_stop_insertion w = (stop, w')"
  shows "line_heap w' = line_heap w" "char_heap w' = char_heap w" "brk w' = brk w"
    "start w' = start w" "lines w' = lines w" "fresh_line w' = fresh_line w"
    "fresh_char w' = fresh_char w" "stdout w' = stdout w" "files w' = files w"
    "stderr w' = stderr w" "fresh_byte w' = fresh_byte w" "char_block w' = char_block w"
    "line_block w' = line_block w" "malloc_null w' = malloc_null w"
  using assms
  by (auto simp: read_stop_insertion_def sigint_handler_def Let_def split: list.splits if_splits)

lemma ALLOC_LL_line_Return:
  assumes "ALLOC_LL_line w = Return (p, w1)"
  shows "p = Some (brk w)" "line_heap w1 = (line_heap w)(brk w := None)" "brk w1 = Suc (brk w)"
    "char_heap w1 = char_heap w" "start w1 = start w" "lines w1 = lines w"
proof -
  from assms obtain w0 where m: "MALLOC w = Return w0"
    and r: "p = Some (brk w0)"
      "w1 = w0\<lparr>line_heap := (line_heap w0)(brk w0 := None),
          line_block := (line_block w0)(brk w0 \<mapsto> l_data (fresh_line w0 (brk w0))),
          brk := Suc (brk w0)\<rparr>"
    by (auto simp: ALLOC_LL_line_def rbind_Return_iff)
  note f = MALLOC_fields [OF m]
  show "p = Some (brk w)" "line_heap w1 = (line_heap w)(brk w := None)" "brk w1 = Suc (brk w)"
    "char_heap w1 = char_heap w" "start w1 = start w" "lines w1 = lines w"
    by (simp_all add: r f)
qed

text \<open>
  A session that returns has been cancelled, at the head of the loop or at the
  poll after \<^verbatim>\<open>getline\<close>: a line that gets past the poll goes to
  \<^verbatim>\<open>charray_to_line\<close>, which does not return.
\<close>

lemma insert_loop_Return:
  assumes "insert_loop inp w = Return (inp', w')"
  shows "start w' = start w" "lines w' = lines w" "char_heap w' = char_heap w"
    "line_heap w' = line_heap w \<or> line_heap w' = (line_heap w)(brk w := None)"
    "brk w \<le> brk w'"
proof -
  obtain stop w0 where h1: "read_stop_insertion w = (stop, w0)"
    by fastforce
  note f0 = read_stop_insertion_fields [OF h1]
  have "start w' = start w \<and> lines w' = lines w \<and> char_heap w' = char_heap w
      \<and> (line_heap w' = line_heap w \<or> line_heap w' = (line_heap w)(brk w := None))
      \<and> brk w \<le> brk w'"
  proof (cases stop)
    case True
    with h1 have "insert_loop inp w = Return (inp, w0)"
      by (subst insert_loop.simps) simp
    with assms have "w' = w0"
      by simp
    then show ?thesis
      by (simp add: f0)
  next
    case False
    with h1 have h1: "read_stop_insertion w = (False, w0)"
      by simp
    show ?thesis
    proof (cases "ALLOC_LL_line w0")
      case Exit_failure
      with h1 have "insert_loop inp w = Exit_failure"
        by (subst insert_loop.simps) simp
      with assms show ?thesis by simp
    next
      case Fault
      with h1 have "insert_loop inp w = Fault"
        by (subst insert_loop.simps) simp
      with assms show ?thesis by simp
    next
      case (Return r)
      then obtain new_line w1 where a: "ALLOC_LL_line w0 = Return (new_line, w1)"
        by (cases r) simp
      note f1 = ALLOC_LL_line_Return [OF a]
      show ?thesis
      proof (cases "getline inp")
        case None
        with h1 a have "insert_loop inp w = Exit_failure"
          by (subst insert_loop.simps) simp
        with assms show ?thesis by simp
      next
        case (Some g)
        then obtain buffer rest where g: "getline inp = Some (buffer, rest)"
          by (cases g) simp
        obtain stop' w2 where h3: "read_stop_insertion w1 = (stop', w2)"
          by fastforce
        note f2 = read_stop_insertion_fields [OF h3]
        show ?thesis
        proof (cases stop')
          case True
          with h1 a g h3 have "insert_loop inp w = Return (rest, w2)"
            by (subst insert_loop.simps) simp
          with assms have "w' = w2"
            by simp
          then show ?thesis
            by (simp add: f2 f1 f0)
        next
          case False
          with h3 have h3: "read_stop_insertion w1 = (False, w2)"
            by simp
          have "insert_loop inp w = Fault \<or> insert_loop inp w = Exit_failure"
            using charray_to_line_block [of new_line buffer w2] h1 a g h3
            by (subst (1 2) insert_loop.simps) auto
          with assms show ?thesis by simp
        qed
      qed
    qed
  qed
  then show "start w' = start w" "lines w' = lines w" "char_heap w' = char_heap w"
    "line_heap w' = line_heap w \<or> line_heap w' = (line_heap w)(brk w := None)"
    "brk w \<le> brk w'"
    by simp_all
qed

section \<open>What printing and writing leave unchanged\<close>











section \<open>The buffer stays well formed\<close>











section \<open>Claim about the cursor\<close>



section \<open>Claims about the serializer\<close>

text \<open>
  C10. The loop of \<^verbatim>\<open>charray_to_line\<close> leaves \<^verbatim>\<open>src\<close> on a newline or a NUL,
  whatever it started from, so the test that follows the loop always takes its
  first branch. But the function produces no Character Chain: every node has
  the size of a pointer, so the first \<^verbatim>\<open>next\<close> link it writes (in \<^verbatim>\<open>APPEND_LL\<close>
  for a line that holds a byte, after the loop for a line that holds none) lies
  outside its block. Whatever the line, the string and the state, a call of
  \<^verbatim>\<open>charray_to_line\<close> does not return: its behaviour is undefined, unless
  \<^verbatim>\<open>malloc\<close> fails first and the process exits.
\<close>

theorem charray_to_line_never_returns:
  "(charray_loop src idx v = Return (src', idx', v') \<longrightarrow>
      deref src' = NL \<or> deref src' = NUL)
   \<and> (charray_to_line dest src w = Fault \<or> charray_to_line dest src w = Exit_failure)"
  using charray_loop_stops [of src idx v src' idx' v'] charray_to_line_block [of dest src w]
  by blast

theorem charray_to_line_never_returns_witness:
  "charray_loop [NL, CHR ''b''] None demo = Return ([NL, CHR ''b''], None, demo)
   \<and> (deref [NL, CHR ''b''] = NL \<or> deref [NL, CHR ''b''] = NUL)
   \<and> line_heap demo 0 = Some \<lparr>l_data = Some 3, l_next = Some 1, l_prev = None\<rparr>
   \<and> charray_to_line (Some 0) ''ab'' demo = Fault
   \<and> charray_to_line (Some 0) [] demo = Fault"
proof -
  have r: "charray_loop [NL, CHR ''b''] None demo = Return ([NL, CHR ''b''], None, demo)"
    by simp
  note t = charray_to_line_never_returns [where src = "[NL, CHR ''b'']" and idx = None
      and v = demo and src' = "[NL, CHR ''b'']" and idx' = None and v' = demo
      and dest = "Some 0" and w = demo]
  from t r have 1: "deref [NL, CHR ''b''] = NL \<or> deref [NL, CHR ''b''] = NUL"
    by blast
  have 2: "line_heap demo 0 = Some \<lparr>l_data = Some 3, l_next = Some 1, l_prev = None\<rparr>"
    by simp
  have 3: "charray_to_line (Some 0) ''ab'' demo = Fault"
    by (rule charray_to_line_demo)
  have 4: "charray_to_line (Some 0) [] demo = Fault"
    by (simp add: charray_to_line_def ALLOC_LL_character_def MALLOC_def charray_finish_def
        deref_def set_c_def set_char_def)
  from r 1 2 3 4 show ?thesis
    by - (intro conjI, assumption+)
qed

text \<open>
  C2. The round trip does not return either, whatever the line, the string and
  the state: \<^verbatim>\<open>charray_to_line\<close> fails before \<^verbatim>\<open>lines_to_charray\<close> is reached.
  So for \<^verbatim>\<open>"ab"\<close> followed by its newline, stored into the first line of the
  example buffer, no text comes back.
\<close>

theorem round_trip_never_returns:
  "(round_trip dest src w = Some Fault \<or> round_trip dest src w = Some Exit_failure)
   \<and> round_trip (Some 0) (''ab'' @ [NL]) demo = Some Fault
   \<and> round_trip (Some 0) (''ab'' @ [NL]) demo \<noteq> Some (Return (''ab'' @ [SPACE, NL]))"
proof -
  have 1: "round_trip dest src w = Some Fault \<or> round_trip dest src w = Some Exit_failure"
    using charray_to_line_block [of dest src w] by (auto simp: round_trip_def)
  have "charray_to_line (Some 0) (''ab'' @ [NL]) demo = Fault"
    by (simp add: charray_to_line_def ALLOC_LL_character_def MALLOC_def set_c_def
        APPEND_LL_character_def set_char_def)
  then have 2: "round_trip (Some 0) (''ab'' @ [NL]) demo = Some Fault"
    by (simp add: round_trip_def)
  from 1 2 show ?thesis
    by simp
qed

section \<open>Claims about insertion\<close>



lemma insert_loop_commit:
  assumes "read_stop_insertion w = (False, w0)" "getline inp = Some (buffer, rest)"
    and "\<And>new_line w1. ALLOC_LL_line w0 = Return (new_line, w1) \<Longrightarrow>
           \<exists>w2. read_stop_insertion w1 = (False, w2)"
  shows "insert_loop inp w = Fault \<or> insert_loop inp w = Exit_failure"
proof (cases "ALLOC_LL_line w0")
  case Exit_failure
  with assms(1) have "insert_loop inp w = Exit_failure"
    by (subst insert_loop.simps) simp
  then show ?thesis ..
next
  case Fault
  with assms(1) have "insert_loop inp w = Fault"
    by (subst insert_loop.simps) simp
  then show ?thesis ..
next
  case (Return r)
  then obtain new_line w1 where a: "ALLOC_LL_line w0 = Return (new_line, w1)"
    by (cases r) simp
  from assms(3) [OF a] obtain w2 where h3: "read_stop_insertion w1 = (False, w2)" ..
  show ?thesis
    using charray_to_line_block [of new_line buffer w2] assms(1,2) a h3
    by (subst (1 2) insert_loop.simps) auto
qed

text \<open>
  C5. Nothing is ever inserted. A session that returns has been cancelled:
  \<^verbatim>\<open>*start\<close>, \<^verbatim>\<open>*line\<close> and the characters are as they were, and no line has
  come into the heap. And when a line is typed and no SIGINT arrives before
  the poll that follows \<^verbatim>\<open>getline\<close>, the line goes to \<^verbatim>\<open>charray_to_line\<close> and
  the session does not return: from the empty buffer, the first line typed
  never becomes \<^verbatim>\<open>*start\<close> and \<^verbatim>\<open>*line\<close>.
\<close>

theorem insert_line_never_inserts:
  "(insert_line inp w = Return (inp', w') \<longrightarrow>
      start w' = start w \<and> lines w' = lines w \<and> char_heap w' = char_heap w
      \<and> (line_heap w' = line_heap w \<or> line_heap w' = (line_heap w)(brk w := None)))
   \<and> (getline inp = Some (buffer, rest) \<and> True \<notin> set (take 2 (sigint w)) \<longrightarrow>
      insert_line inp w = Fault \<or> insert_line inp w = Exit_failure)"
proof (intro conjI impI)
  assume "insert_line inp w = Return (inp', w')"
  then have r: "insert_loop inp (w\<lparr>stop_insertion := False\<rparr>) = Return (inp', w')"
    by (simp add: insert_line_def)
  note f = insert_loop_Return [OF r]
  from f(1) show "start w' = start w"
    by simp
  from f(2) show "lines w' = lines w"
    by simp
  from f(3) show "char_heap w' = char_heap w"
    by simp
  from f(4) show "line_heap w' = line_heap w \<or> line_heap w' = (line_heap w)(brk w := None)"
    by simp
next
  assume a: "getline inp = Some (buffer, rest) \<and> True \<notin> set (take 2 (sigint w))"
  define v where "v = w\<lparr>stop_insertion := False\<rparr>"
  define w0 where "w0 = v\<lparr>sigint := tl (sigint w)\<rparr>"
  from a have h1: "read_stop_insertion v = (False, w0)"
    by (cases "sigint w") (auto simp: read_stop_insertion_def v_def w0_def)
  have h3: "\<exists>w2. read_stop_insertion w1 = (False, w2)"
    if "ALLOC_LL_line w0 = Return (new_line, w1)" for new_line w1
  proof -
    from that obtain m where m: "MALLOC w0 = Return m"
      and w1: "w1 = m\<lparr>line_heap := (line_heap m)(brk m := None),
          line_block := (line_block m)(brk m \<mapsto> l_data (fresh_line m (brk m))),
          brk := Suc (brk m)\<rparr>"
      by (auto simp: ALLOC_LL_line_def rbind_Return_iff)
    note f = MALLOC_fields [OF m]
    have "stop_insertion w1 = False" "sigint w1 = tl (sigint w)"
      by (simp_all add: w1 f w0_def v_def)
    moreover from a have "tl (sigint w) = [] \<or> (\<exists>sg. tl (sigint w) = False # sg)"
      by (cases "sigint w"; cases "tl (sigint w)") auto
    ultimately show ?thesis
      by (auto simp: read_stop_insertion_def)
  qed
  from a have g: "getline inp = Some (buffer, rest)"
    by simp
  have "insert_loop inp v = Fault \<or> insert_loop inp v = Exit_failure"
    by (rule insert_loop_commit [OF h1 g h3])
  then show "insert_line inp w = Fault \<or> insert_line inp w = Exit_failure"
    by (simp add: insert_line_def v_def)
qed

theorem insert_line_never_inserts_witness:
  "start init_state = None \<and> lines init_state = None
   \<and> getline (typed [''ab'']) = Some (''ab'' @ [NL], [])
   \<and> True \<notin> set (take 2 (sigint init_state))
   \<and> insert_line (typed [''ab'']) init_state = Fault
   \<and> insert_line (typed [''ab'']) (init_state\<lparr>sigint := [True]\<rparr>)
        = Return (typed [''ab''], init_state\<lparr>stop_insertion := True\<rparr>)
   \<and> start (init_state\<lparr>stop_insertion := True\<rparr>) = start (init_state\<lparr>sigint := [True]\<rparr>)
   \<and> lines (init_state\<lparr>stop_insertion := True\<rparr>) = lines (init_state\<lparr>sigint := [True]\<rparr>)"
proof -
  have h: "start init_state = None" "lines init_state = None"
    "getline (typed [''ab'']) = Some (''ab'' @ [NL], [])"
    "True \<notin> set (take 2 (sigint init_state))"
    by (simp_all add: init_state_def typed_def getline_def)
  have e: "insert_line (typed [''ab'']) init_state \<noteq> Exit_failure"
    unfolding insert_line_def
    by (subst insert_loop.simps)
      (simp add: init_state_def typed_def getline_def read_stop_insertion_def ALLOC_LL_line_def
        MALLOC_def charray_to_line_def ALLOC_LL_character_def set_c_def APPEND_LL_character_def
        set_char_def)
  from insert_line_never_inserts [of "typed [''ab'']" init_state _ _ "''ab'' @ [NL]" "[]"] h(3,4) e
  have 1: "insert_line (typed [''ab'']) init_state = Fault"
    by blast
  have 2: "insert_line (typed [''ab'']) (init_state\<lparr>sigint := [True]\<rparr>)
        = Return (typed [''ab''], init_state\<lparr>stop_insertion := True\<rparr>)"
    unfolding insert_line_def
    by (subst insert_loop.simps)
      (simp add: init_state_def read_stop_insertion_def sigint_handler_def)
  from insert_line_never_inserts [of "typed [''ab'']" "init_state\<lparr>sigint := [True]\<rparr>"
      "typed [''ab'']" "init_state\<lparr>stop_insertion := True\<rparr>"] 2
  have 3: "start (init_state\<lparr>stop_insertion := True\<rparr>) = start (init_state\<lparr>sigint := [True]\<rparr>)"
    "lines (init_state\<lparr>stop_insertion := True\<rparr>) = lines (init_state\<lparr>sigint := [True]\<rparr>)"
    by blast+
  from h 1 2 3 show ?thesis
    by - (intro conjI, assumption+)
qed

section \<open>Claim about loading\<close>

lemma MALLOC_Exit_iff: "MALLOC w = Exit_failure \<longleftrightarrow> (\<exists>ms. malloc_null w = True # ms)"
  by (auto simp: MALLOC_def split: list.splits)

lemma read_lines_eq:
  "read_lines fname w =
     (if (content (files w fname) = None \<and> \<not> may_write (files w fname))
         \<or> (content (files w fname) \<noteq> None \<and> \<not> may_read (files w fname))
         \<or> MALLOC w = Exit_failure
      then Exit_failure else Fault)"
proof (cases "malloc_null w")
  case Nil
  then show ?thesis
    by (simp add: read_lines_def fopen_r_def create_empty_file_def fopen_w_def ALLOC_LL_line_def
        MALLOC_def set_line_def split: option.splits)
next
  case (Cons null ms)
  then show ?thesis
    by (cases null)
      (simp_all add: read_lines_def fopen_r_def create_empty_file_def fopen_w_def
        ALLOC_LL_line_def MALLOC_def set_line_def split: option.splits)
qed

text \<open>
  C7, as far as the code goes by design. For a file that does not exist,
  \<^verbatim>\<open>read_lines\<close> reports an error exactly when it cannot create it: when
  \<^verbatim>\<open>fopen\<close> can create the file, \<^verbatim>\<open>create_empty_file\<close> returns with the file
  created empty, and \<^verbatim>\<open>read_lines\<close> does not exit with an error (\<^verbatim>\<open>malloc\<close>
  permitting); when \<^verbatim>\<open>fopen\<close> cannot, \<^verbatim>\<open>read_lines\<close> exits with
  \<^verbatim>\<open>EXIT_FAILURE\<close>. For a missing file \<^verbatim>\<open>read_lines\<close> is \<^verbatim>\<open>create_empty_file\<close>,
  then \<^verbatim>\<open>malloc\<close>, then a write outside the block: what it does once the file
  is open is the same for every file, it allocates the first line with the
  size of a pointer and writes its \<^verbatim>\<open>prev\<close> link.
\<close>

theorem read_lines_missing_source:
  "(content (files w fname) = None \<and> may_write (files w fname) \<longrightarrow>
      create_empty_file fname w
        = Return ([], w\<lparr>files := (files w)(fname := (files w fname)\<lparr>content := Some []\<rparr>)\<rparr>)
      \<and> (MALLOC w \<noteq> Exit_failure \<longrightarrow> read_lines fname w \<noteq> Exit_failure))
   \<and> (content (files w fname) = None \<and> \<not> may_write (files w fname) \<longrightarrow>
      read_lines fname w = Exit_failure)
   \<and> (content (files w fname) = None \<longrightarrow>
      read_lines fname w
        = rbind (create_empty_file fname w) (\<lambda>(file, w0). rbind (MALLOC w0) (\<lambda>_. Fault)))
   \<and> read_lines fname w =
       (if (content (files w fname) = None \<and> \<not> may_write (files w fname))
           \<or> (content (files w fname) \<noteq> None \<and> \<not> may_read (files w fname))
           \<or> MALLOC w = Exit_failure
        then Exit_failure else Fault)"
proof (intro conjI impI)
  assume a: "content (files w fname) = None \<and> may_write (files w fname)"
  then show "create_empty_file fname w
        = Return ([], w\<lparr>files := (files w)(fname := (files w fname)\<lparr>content := Some []\<rparr>)\<rparr>)"
    by (simp add: create_empty_file_def fopen_w_def)
  assume "MALLOC w \<noteq> Exit_failure"
  with a show "read_lines fname w \<noteq> Exit_failure"
    by (simp add: read_lines_eq)
next
  assume "content (files w fname) = None \<and> \<not> may_write (files w fname)"
  then show "read_lines fname w = Exit_failure"
    by (simp add: read_lines_eq)
next
  assume "content (files w fname) = None"
  then show "read_lines fname w
        = rbind (create_empty_file fname w) (\<lambda>(file, w0). rbind (MALLOC w0) (\<lambda>_. Fault))"
    by (cases "malloc_null w"; cases "may_write (files w fname)")
      (auto simp: read_lines_eq create_empty_file_def fopen_w_def MALLOC_def)
next
  show "read_lines fname w =
       (if (content (files w fname) = None \<and> \<not> may_write (files w fname))
           \<or> (content (files w fname) \<noteq> None \<and> \<not> may_read (files w fname))
           \<or> MALLOC w = Exit_failure
        then Exit_failure else Fault)"
    by (rule read_lines_eq)
qed

theorem read_lines_missing_source_witness:
  "content (files init_state ''f'') = None \<and> may_write (files init_state ''f'')
   \<and> MALLOC init_state \<noteq> Exit_failure
   \<and> create_empty_file ''f'' init_state
        = Return ([], init_state\<lparr>files := (files init_state)
                      (''f'' := (files init_state ''f'')\<lparr>content := Some []\<rparr>)\<rparr>)
   \<and> read_lines ''f'' init_state \<noteq> Exit_failure
   \<and> read_lines ''f'' init_state = Fault
   \<and> content (files (init_state\<lparr>files := (\<lambda>_. \<lparr>content = None, may_read = True, may_write = False\<rparr>)\<rparr>) ''f'') = None
   \<and> \<not> may_write (files (init_state\<lparr>files := (\<lambda>_. \<lparr>content = None, may_read = True, may_write = False\<rparr>)\<rparr>) ''f'')
   \<and> read_lines ''f'' (init_state\<lparr>files := (\<lambda>_. \<lparr>content = None, may_read = True, may_write = False\<rparr>)\<rparr>)
        = Exit_failure"
proof -
  define u where "u = init_state\<lparr>files := (\<lambda>_. \<lparr>content = None, may_read = True, may_write = False\<rparr>)\<rparr>"
  have h: "content (files init_state ''f'') = None \<and> may_write (files init_state ''f'')"
    "MALLOC init_state \<noteq> Exit_failure"
    "content (files u ''f'') = None \<and> \<not> may_write (files u ''f'')"
    by (simp_all add: init_state_def u_def MALLOC_def)
  note t = read_lines_missing_source [of init_state "''f''"]
  from t h(1,2) have 1: "create_empty_file ''f'' init_state
        = Return ([], init_state\<lparr>files := (files init_state)
                      (''f'' := (files init_state ''f'')\<lparr>content := Some []\<rparr>)\<rparr>)"
    and 2: "read_lines ''f'' init_state \<noteq> Exit_failure"
    by blast+
  from t have "read_lines ''f'' init_state =
       (if (content (files init_state ''f'') = None \<and> \<not> may_write (files init_state ''f''))
           \<or> (content (files init_state ''f'') \<noteq> None \<and> \<not> may_read (files init_state ''f''))
           \<or> MALLOC init_state = Exit_failure
        then Exit_failure else Fault)"
    by blast
  with h(1,2) have 3: "read_lines ''f'' init_state = Fault"
    by simp
  from read_lines_missing_source [of u "''f''"] h(3) have 4: "read_lines ''f'' u = Exit_failure"
    by blast
  from h 1 2 3 4 show ?thesis
    unfolding u_def by - (elim conjE, intro conjI, assumption+)
qed

text \<open>
  C7 as stated fails where the missing file cannot be created (its directory
  is missing or read-only): \<^verbatim>\<open>create_empty_file\<close> ends the process with
  \<^verbatim>\<open>EXIT_FAILURE\<close>.
\<close>

theorem read_lines_counterexample:
  "content (files (init_state\<lparr>files := (\<lambda>_. \<lparr>content = None, may_read = True, may_write = False\<rparr>)\<rparr>) ''f'') = None
   \<and> read_lines ''f'' (init_state\<lparr>files := (\<lambda>_. \<lparr>content = None, may_read = True, may_write = False\<rparr>)\<rparr>)
       = Exit_failure"
  by (simp add: read_lines_def fopen_r_def create_empty_file_def fopen_w_def init_state_def)

end
